theory Spec2Isabelle
  imports Main "HOL-Library.Word"
begin

section \<open>Data model of the isov driver\<close>

text \<open>
  The driver keeps its data in file-scope arrays of five entries, one per channel.
  \<^verbatim>\<open>u32\<close> is a 32-bit word.  A C \<^verbatim>\<open>int\<close> is kept as its 32-bit two's
  complement bit pattern and read as a number with \<open>sint\<close>; the conversions between
  \<^verbatim>\<open>int\<close> and \<^verbatim>\<open>unsigned\<close> of the same width leave the bit pattern alone.
\<close>

type_synonym u32 = "32 word"
type_synonym c_int = "32 word"

datatype error = DivisionByZero | EINVAL | ENODATA | EFAULT | BeyondBuffer int

record isov_state =
  vcf_irqs :: "c_int list"
  last_pulse_time :: "u32 list"
  calib_coeficients :: "c_int list"
  voltages :: "c_int list"
  time_diff :: u32
  txt_buffer :: "char list"

text \<open>The static initialisers of the arrays; \<^verbatim>\<open>txt_buffer\<close> is zero-filled.\<close>

definition static_init :: isov_state where
  "static_init =
     \<lparr>vcf_irqs = [-1, -1, -1, -1, -1],
      last_pulse_time = [0, 0, 0, 0, 0],
      calib_coeficients = [7692308, 7692308, 7692308, 7692308, 7692308],
      voltages = [0, 0, 0, 0, 0],
      time_diff = 0,
      txt_buffer = replicate 256 (CHR 0x00)\<rparr>"

text \<open>
  A successful \<^verbatim>\<open>isov_init\<close> stores the interrupt number of the first GPIO in
  \<^verbatim>\<open>vcf_irqs[0]\<close> and leaves the other four entries at -1.
\<close>

definition after_init :: "c_int \<Rightarrow> isov_state" where
  "after_init irq0 = static_init\<lparr>vcf_irqs := (vcf_irqs static_init)[0 := irq0]\<rparr>"

text \<open>Every array has the five entries of its declaration, the text buffer 256 bytes.\<close>

definition wf_state :: "isov_state \<Rightarrow> bool" where
  "wf_state s \<longleftrightarrow>
     length (vcf_irqs s) = 5 \<and> length (last_pulse_time s) = 5 \<and>
     length (calib_coeficients s) = 5 \<and> length (voltages s) = 5 \<and>
     length (txt_buffer s) = 256"

section \<open>The interrupt handler\<close>

text \<open>
  The body of the loop of \<^verbatim>\<open>vcf_isr\<close> for a channel whose interrupt number matched.
  \<open>now1\<close> and \<open>now2\<close> are the values of the two \<^verbatim>\<open>ioread32(timer)\<close> calls.  The
  division \<^verbatim>\<open>calib_coeficients[i] / time_diff\<close> has an \<^verbatim>\<open>int\<close> and a \<^verbatim>\<open>u32\<close>
  operand, so it is the unsigned division of the two bit patterns; its divisor is not
  tested against zero by the source, and a zero divisor is the error
  \<open>DivisionByZero\<close> here.
\<close>

definition isr_channel :: "nat \<Rightarrow> u32 \<Rightarrow> u32 \<Rightarrow> isov_state \<Rightarrow> error + isov_state" where
  "isr_channel i now1 now2 s =
     (let td = now1 - last_pulse_time s ! i;
          s1 = s\<lparr>time_diff := td, last_pulse_time := (last_pulse_time s)[i := now2]\<rparr>
      in if td < 1000000
         then (if td = 0 then Inl DivisionByZero
               else Inr (s1\<lparr>voltages := (voltages s1)[i := calib_coeficients s1 ! i div td]\<rparr>))
         else Inr s1)"

text \<open>
  The loop over the channels \<open>is\<close>; \<open>tm i\<close> gives the two timer values read while
  channel \<open>i\<close> is handled.
\<close>

fun isr_loop :: "(nat \<Rightarrow> u32 \<times> u32) \<Rightarrow> c_int \<Rightarrow> nat list \<Rightarrow> isov_state \<Rightarrow> error + isov_state" where
  "isr_loop tm irq [] s = Inr s"
| "isr_loop tm irq (i # is) s =
     (if irq = vcf_irqs s ! i
      then (case isr_channel i (fst (tm i)) (snd (tm i)) s of
              Inl e \<Rightarrow> Inl e
            | Inr s' \<Rightarrow> isr_loop tm irq is s')
      else isr_loop tm irq is s)"

definition vcf_isr :: "(nat \<Rightarrow> u32 \<times> u32) \<Rightarrow> c_int \<Rightarrow> isov_state \<Rightarrow> error + isov_state" where
  "vcf_isr tm irq s = isr_loop tm irq [0, 1, 2, 3, 4] s"

text \<open>
  The operation \<^verbatim>\<open>on_edge(i, t)\<close> of the specification has one timestamp, the handler
  reads the timer twice.  \<open>on_edge i t\<close> is the run of the handler for the interrupt
  number of channel \<open>i\<close> in which both reads give \<open>t\<close>.  Runs in which the timer moves
  between the two reads are runs of \<open>vcf_isr\<close> with other timer values; the statements
  about periods below are made for those.
\<close>

definition on_edge :: "nat \<Rightarrow> u32 \<Rightarrow> isov_state \<Rightarrow> error + isov_state" where
  "on_edge i t s = vcf_isr (\<lambda>_. (t, t)) (vcf_irqs s ! i) s"

section \<open>The character device\<close>

text \<open>\<^verbatim>\<open>isov_misc_write\<close> returns \<^verbatim>\<open>-EINVAL\<close> and touches nothing.\<close>

definition isov_misc_write :: "isov_state \<Rightarrow> char list \<Rightarrow> nat \<Rightarrow> nat \<Rightarrow> (error + int) \<times> isov_state" where
  "isov_misc_write s buf count offset = (Inl EINVAL, s)"

subsection \<open>The conversion \<^verbatim>\<open>%d\<close>\<close>

definition digit :: "nat \<Rightarrow> char" where
  "digit n = ''0123456789'' ! n"

fun dec_nat :: "nat \<Rightarrow> string" where
  "dec_nat n = (if n < 10 then [digit n] else dec_nat (n div 10) @ [digit (n mod 10)])"

declare dec_nat.simps [simp del]

definition dec_int :: "int \<Rightarrow> string" where
  "dec_int k = (if k < 0 then CHR ''-'' # dec_nat (nat (- k)) else dec_nat (nat k))"

text \<open>
  The text of \<^verbatim>\<open>"V1=%d V2=%d V3=%d V4=%d V5=%d \n"\<close> for the five entries of
  \<^verbatim>\<open>voltages\<close>.
\<close>

definition format_voltages :: "c_int list \<Rightarrow> string" where
  "format_voltages vs =
     ''V1='' @ dec_int (sint (vs ! 0)) @ '' V2='' @ dec_int (sint (vs ! 1)) @
     '' V3='' @ dec_int (sint (vs ! 2)) @ '' V4='' @ dec_int (sint (vs ! 3)) @
     '' V5='' @ dec_int (sint (vs ! 4)) @ [CHR '' '', CHR 0x0A]"

text \<open>
  \<^verbatim>\<open>snprintf(buf, sz, ...)\<close> for a generated \<open>text\<close>: at most \<open>sz - 1\<close> characters
  and a null byte are stored at the start of \<open>buf\<close>, and the length of the whole text
  is returned.
\<close>

definition snprintf :: "char list \<Rightarrow> nat \<Rightarrow> string \<Rightarrow> char list \<times> int" where
  "snprintf buf sz text =
     (let out = take (sz - 1) text @ [CHR 0x00]
      in (out @ drop (length out) buf, int (length text)))"

subsection \<open>Integer types of the kernel interface\<close>

text \<open>
  \<^verbatim>\<open>size_t\<close>, \<^verbatim>\<open>ssize_t\<close> and \<^verbatim>\<open>loff_t\<close> come from the kernel headers.  \<^verbatim>\<open>loff_t\<close>
  is a signed 64-bit integer; \<^verbatim>\<open>size_t\<close> is unsigned with 32 bits on a 32-bit kernel
  (\<open>ILP32\<close>) and 64 bits on a 64-bit kernel (\<open>LP64\<close>).  The data model is a parameter
  of the read function.
\<close>

datatype data_model = ILP32 | LP64

fun size_bits :: "data_model \<Rightarrow> nat" where
  "size_bits ILP32 = 32"
| "size_bits LP64 = 64"

text \<open>Conversion of an integer to \<^verbatim>\<open>size_t\<close>, and of a \<^verbatim>\<open>size_t\<close> value to \<^verbatim>\<open>ssize_t\<close>.\<close>

definition to_size_t :: "data_model \<Rightarrow> int \<Rightarrow> int" where
  "to_size_t dm k = k mod 2 ^ size_bits dm"

definition to_ssize_t :: "data_model \<Rightarrow> int \<Rightarrow> int" where
  "to_ssize_t dm k = (if k < 2 ^ (size_bits dm - 1) then k else k - 2 ^ size_bits dm)"

text \<open>
  \<^verbatim>\<open>txt_len - *offset\<close>, a \<^verbatim>\<open>size_t\<close> minus a \<^verbatim>\<open>loff_t\<close>.  With a 32-bit \<^verbatim>\<open>size_t\<close>
  both operands become \<^verbatim>\<open>long long\<close> and the difference is signed; with a 64-bit
  \<^verbatim>\<open>size_t\<close> both become \<^verbatim>\<open>unsigned long long\<close> and the difference wraps.  The file
  layer passes offsets from 0 to \<open>2 ^ 63 - 1\<close>, so the signed difference does not
  overflow.
\<close>

fun len_minus_offset :: "data_model \<Rightarrow> int \<Rightarrow> nat \<Rightarrow> int" where
  "len_minus_offset ILP32 txt_len offset = txt_len - int offset"
| "len_minus_offset LP64 txt_len offset = (txt_len - int offset) mod 2 ^ 64"

subsection \<open>Reading\<close>

text \<open>
  The block that fills \<^verbatim>\<open>txt_buffer\<close>: \<^verbatim>\<open>txt_len = snprintf(txt_buffer, 256, ...)\<close>
  followed by \<^verbatim>\<open>txt_len++\<close>.  The \<^verbatim>\<open>int\<close> returned by \<^verbatim>\<open>snprintf\<close> is converted to
  \<^verbatim>\<open>size_t\<close>.
\<close>

definition render :: "data_model \<Rightarrow> isov_state \<Rightarrow> isov_state \<times> int" where
  "render dm s =
     (let (buf, n) = snprintf (txt_buffer s) 256 (format_voltages (voltages s));
          txt_len = to_size_t dm n
      in (s\<lparr>txt_buffer := buf\<rparr>, to_size_t dm (txt_len + 1)))"

text \<open>
  The statements after that block, for the state \<open>s1\<close> and the \<^verbatim>\<open>txt_len\<close> it leaves:
  the minimum \<^verbatim>\<open>len\<close>, the test \<^verbatim>\<open>len <= 0\<close>, and the copy to the user.  \<open>uspace\<close>
  stands for the user buffer: the number of bytes that can be written at \<^verbatim>\<open>buf\<close>, so
  that \<^verbatim>\<open>copy_to_user\<close> of \<open>n\<close> bytes fails when \<open>uspace < n\<close>.  The source copies
  \<^verbatim>\<open>len + 1\<close> bytes from \<^verbatim>\<open>txt_buffer + *offset\<close> and returns \<^verbatim>\<open>len\<close>, and it has no
  test of the range copied.  When the range lies inside the 256 bytes of \<^verbatim>\<open>txt_buffer\<close>
  the result is the returned \<^verbatim>\<open>ssize_t\<close> with the bytes stored in the user buffer.
  When it does not, the source still returns \<^verbatim>\<open>len\<close>, with bytes from outside
  \<^verbatim>\<open>txt_buffer\<close>, which are no part of this model: that outcome is
  \<open>BeyondBuffer\<close> with the value returned.
\<close>

definition copy_out ::
  "data_model \<Rightarrow> nat \<Rightarrow> isov_state \<Rightarrow> int \<Rightarrow> nat \<Rightarrow> nat \<Rightarrow> (error + int \<times> char list) \<times> isov_state" where
  "copy_out dm uspace s1 txt_len count offset =
     (let d = len_minus_offset dm txt_len offset;
          len = to_size_t dm (if d > int count then int count else d)
      in if len \<le> 0 then (Inl ENODATA, s1)
         else (let n = nat (to_size_t dm (len + 1))
               in if uspace < n then (Inl EFAULT, s1)
                  else if offset + n > 256 then (Inl (BeyondBuffer (to_ssize_t dm len)), s1)
                  else (Inr (to_ssize_t dm len, take n (drop offset (txt_buffer s1))), s1)))"

text \<open>
  \<^verbatim>\<open>isov_misc_read(file, buf, count, offset)\<close>.  \<^verbatim>\<open>txt_len\<close> is an automatic variable
  and is 0 at every entry, so the test \<^verbatim>\<open>txt_len - *offset <= 0\<close> that guards the
  rendering block compares \<open>0 - offset\<close> with 0; \<^verbatim>\<open>*offset\<close> is read and never written.
\<close>

definition isov_misc_read ::
  "data_model \<Rightarrow> nat \<Rightarrow> isov_state \<Rightarrow> nat \<Rightarrow> nat \<Rightarrow> (error + int \<times> char list) \<times> isov_state" where
  "isov_misc_read dm uspace s count offset =
     (let txt_len0 = 0;
          (s1, txt_len) =
            (if len_minus_offset dm txt_len0 offset \<le> 0 then render dm s else (s, txt_len0))
      in copy_out dm uspace s1 txt_len count offset)"

subsection \<open>The file position\<close>

text \<open>
  A \<^verbatim>\<open>read\<close> call on the open device.  The file layer hands \<^verbatim>\<open>isov_misc_read\<close> a
  pointer to the position of the file and keeps what the driver leaves there.
  \<^verbatim>\<open>isov_misc_read\<close> has no assignment to \<^verbatim>\<open>*offset\<close>, and \<^verbatim>\<open>isov_misc_open\<close> opens the
  file with \<^verbatim>\<open>nonseekable_open\<close>, so the position of a file, 0 when it is opened, is the
  same after the call.
\<close>

definition file_read ::
  "data_model \<Rightarrow> nat \<Rightarrow> isov_state \<times> nat \<Rightarrow> nat \<Rightarrow> (error + int \<times> char list) \<times> (isov_state \<times> nat)" where
  "file_read dm uspace f count =
     (let (r, s') = isov_misc_read dm uspace (fst f) count (snd f) in (r, (s', snd f)))"

section \<open>Notions used in the statements\<close>

text \<open>
  Channel \<open>i\<close> has an interrupt number of its own: no other entry of \<^verbatim>\<open>vcf_irqs\<close>
  holds the same number, so that an interrupt of channel \<open>i\<close> selects channel \<open>i\<close> alone
  in the loop of the handler.
\<close>

definition own_irq :: "isov_state \<Rightarrow> nat \<Rightarrow> bool" where
  "own_irq s i = list_all (\<lambda>j. j = i \<or> vcf_irqs s ! j \<noteq> vcf_irqs s ! i) [0, 1, 2, 3, 4]"

text \<open>
  The rendered snapshot of a state: the formatted text of its voltages with the
  terminating null byte, and its length, which counts the terminator.
\<close>

definition snapshot :: "isov_state \<Rightarrow> char list" where
  "snapshot s = format_voltages (voltages s) @ [CHR 0x00]"

definition rendered_length :: "isov_state \<Rightarrow> nat" where
  "rendered_length s = length (snapshot s)"

text \<open>
  The bytes a caller has read after a call: the first \<open>n\<close> bytes of its buffer when
  the call returned \<open>n\<close>, and none when it failed.
\<close>

definition read_data :: "error + int \<times> char list \<Rightarrow> char list" where
  "read_data r = (case r of Inl e \<Rightarrow> [] | Inr (n, copied) \<Rightarrow> take (nat n) copied)"

text \<open>The number that a string of decimal digits denotes.\<close>

definition dec_value :: "string \<Rightarrow> nat" where
  "dec_value cs = foldl (\<lambda>a c. 10 * a + (of_char c - 48)) 0 cs"

text \<open>
  A signed decimal integer of no fixed width, as a string: a minus sign if the number is
  negative, then its digits, with no padding, so no leading zero except for the number
  0, which is written \<open>0\<close>; and the integer such a string denotes.
\<close>

definition is_digit :: "char \<Rightarrow> bool" where
  "is_digit c \<longleftrightarrow> c \<in> set ''0123456789''"

definition unsigned_part :: "string \<Rightarrow> string" where
  "unsigned_part cs = (case cs of [] \<Rightarrow> [] | c # r \<Rightarrow> if c = CHR ''-'' then r else cs)"

definition plain_decimal :: "string \<Rightarrow> bool" where
  "plain_decimal cs \<longleftrightarrow>
     unsigned_part cs \<noteq> [] \<and> list_all is_digit (unsigned_part cs) \<and>
     (hd (unsigned_part cs) = CHR ''0'' \<longrightarrow> cs = ''0'')"

definition decimal_value :: "string \<Rightarrow> int" where
  "decimal_value cs =
     (case cs of [] \<Rightarrow> 0
      | c # r \<Rightarrow> if c = CHR ''-'' then - int (dec_value r) else int (dec_value cs))"

text \<open>Integer division that truncates towards zero.\<close>

definition trunc_div :: "int \<Rightarrow> int \<Rightarrow> int" where
  "trunc_div a b = (if (a < 0) = (b < 0) then \<bar>a\<bar> div \<bar>b\<bar> else - (\<bar>a\<bar> div \<bar>b\<bar>))"

section \<open>Facts about the handler\<close>

lemma isr_channel_keeps:
  assumes "isr_channel i a b s = Inr s'"
  shows "vcf_irqs s' = vcf_irqs s \<and> calib_coeficients s' = calib_coeficients s \<and>
         txt_buffer s' = txt_buffer s \<and> length (last_pulse_time s') = length (last_pulse_time s) \<and>
         length (voltages s') = length (voltages s)"
  using assms by (auto simp: isr_channel_def Let_def split: if_splits)

lemma isr_channel_other:
  assumes "isr_channel i a b s = Inr s'" and "j \<noteq> i"
  shows "last_pulse_time s' ! j = last_pulse_time s ! j \<and> voltages s' ! j = voltages s ! j"
  using assms by (auto simp: isr_channel_def Let_def split: if_splits)

lemma isr_loop_keeps:
  "isr_loop tm irq js s = Inr s' \<Longrightarrow>
     vcf_irqs s' = vcf_irqs s \<and> calib_coeficients s' = calib_coeficients s \<and>
     txt_buffer s' = txt_buffer s \<and> length (last_pulse_time s') = length (last_pulse_time s) \<and>
     length (voltages s') = length (voltages s)"
proof (induction js arbitrary: s)
  case Nil
  then show ?case by simp
next
  case (Cons i js)
  show ?case
  proof (cases "irq = vcf_irqs s ! i")
    case True
    with Cons.prems obtain s1 where
      c: "isr_channel i (fst (tm i)) (snd (tm i)) s = Inr s1" and l: "isr_loop tm irq js s1 = Inr s'"
      by (auto split: sum.splits)
    from Cons.IH [OF l] isr_channel_keeps [OF c] show ?thesis by simp
  next
    case False
    with Cons.prems have "isr_loop tm irq js s = Inr s'" by simp
    then show ?thesis by (rule Cons.IH)
  qed
qed

lemma isr_loop_other:
  "isr_loop tm irq js s = Inr s' \<Longrightarrow> vcf_irqs s ! j \<noteq> irq \<Longrightarrow>
     last_pulse_time s' ! j = last_pulse_time s ! j \<and> voltages s' ! j = voltages s ! j"
proof (induction js arbitrary: s)
  case Nil
  then show ?case by simp
next
  case (Cons i js)
  show ?case
  proof (cases "irq = vcf_irqs s ! i")
    case True
    with Cons.prems obtain s1 where
      c: "isr_channel i (fst (tm i)) (snd (tm i)) s = Inr s1" and l: "isr_loop tm irq js s1 = Inr s'"
      by (auto split: sum.splits)
    from True Cons.prems have ne: "j \<noteq> i" by auto
    from isr_channel_keeps [OF c] Cons.prems have "vcf_irqs s1 ! j \<noteq> irq" by simp
    from Cons.IH [OF l this] isr_channel_other [OF c ne] show ?thesis by simp
  next
    case False
    with Cons.prems have "isr_loop tm irq js s = Inr s'" by simp
    then show ?thesis using Cons.prems(2) by (rule Cons.IH)
  qed
qed

lemma isr_loop_no_match:
  "\<forall>j \<in> set js. vcf_irqs s ! j \<noteq> irq \<Longrightarrow> isr_loop tm irq js s = Inr s"
  by (induction js) auto

lemma isr_loop_single:
  assumes "distinct js" and "i \<in> set js"
    and "\<forall>j \<in> set js. j \<noteq> i \<longrightarrow> vcf_irqs s ! j \<noteq> vcf_irqs s ! i"
  shows "isr_loop tm (vcf_irqs s ! i) js s = isr_channel i (fst (tm i)) (snd (tm i)) s"
  using assms
proof (induction js)
  case Nil
  then show ?case by simp
next
  case (Cons j js)
  show ?case
  proof (cases "j = i")
    case True
    show ?thesis
    proof (cases "isr_channel i (fst (tm i)) (snd (tm i)) s")
      case (Inl e)
      with True show ?thesis by simp
    next
      case (Inr s1)
      from Cons.prems True have "\<forall>k \<in> set js. vcf_irqs s ! k \<noteq> vcf_irqs s ! i" by auto
      with isr_channel_keeps [OF Inr] have "\<forall>k \<in> set js. vcf_irqs s1 ! k \<noteq> vcf_irqs s ! i" by simp
      then have "isr_loop tm (vcf_irqs s ! i) js s1 = Inr s1" by (rule isr_loop_no_match)
      with True Inr show ?thesis by simp
    qed
  next
    case False
    with Cons.prems have "vcf_irqs s ! j \<noteq> vcf_irqs s ! i" and "i \<in> set js" by auto
    with Cons show ?thesis by simp
  qed
qed

lemma on_edge_single:
  assumes "i < 5" and "own_irq s i"
  shows "on_edge i t s = isr_channel i t t s"
proof -
  from assms(1) have "i \<in> set [0, 1, 2, 3, 4]" by (simp add: numeral_eq_Suc less_Suc_eq)
  moreover from assms(2) have "\<forall>j \<in> set [0, 1, 2, 3, 4]. j \<noteq> i \<longrightarrow> vcf_irqs s ! j \<noteq> vcf_irqs s ! i"
    unfolding own_irq_def list_all_iff by blast
  moreover have "distinct [0, 1, 2, 3, 4::nat]" by simp
  ultimately have "isr_loop (\<lambda>_. (t, t)) (vcf_irqs s ! i) [0, 1, 2, 3, 4] s = isr_channel i (fst (t, t)) (snd (t, t)) s"
    by (rule isr_loop_single [rotated 1])
  then show ?thesis by (simp add: on_edge_def vcf_isr_def)
qed

lemma wf_after_init: "wf_state (after_init irq0)"
  by (simp add: wf_state_def after_init_def static_init_def)

lemma isr_channel_wf:
  assumes "isr_channel i a b s = Inr s'" and "wf_state s"
  shows "wf_state s'"
  using assms isr_channel_keeps [OF assms(1)] by (simp add: wf_state_def)

lemma isr_channel_last:
  assumes "isr_channel i a b s = Inr s'" and "i < length (last_pulse_time s)"
  shows "last_pulse_time s' ! i = b"
  using assms by (auto simp: isr_channel_def Let_def split: if_splits)

lemma isr_channel_valid:
  assumes "a - last_pulse_time s ! i \<noteq> 0" and "a - last_pulse_time s ! i < 1000000"
    and "i < length (voltages s)"
  shows "\<exists>s'. isr_channel i a b s = Inr s' \<and>
           voltages s' ! i = calib_coeficients s ! i div (a - last_pulse_time s ! i) \<and>
           time_diff s' = a - last_pulse_time s ! i"
  using assms by (simp add: isr_channel_def Let_def)

lemma isr_channel_stale:
  assumes "\<not> a - last_pulse_time s ! i < 1000000"
  shows "\<exists>s'. isr_channel i a b s = Inr s' \<and> voltages s' = voltages s \<and>
           time_diff s' = a - last_pulse_time s ! i"
  using assms by (simp add: isr_channel_def Let_def)

lemma isr_channel_zero:
  assumes "a = last_pulse_time s ! i"
  shows "isr_channel i a b s = Inl DivisionByZero"
  using assms by (simp add: isr_channel_def Let_def)

lemma uint_of_nonneg_sint:
  fixes c :: "32 word"
  assumes "0 \<le> sint c"
  shows "uint c = sint c"
proof -
  have "sint c < 2 ^ 32" using sint_lt [of c] by simp
  with assms show ?thesis by (simp add: uint_sint take_bit_int_eq_self)
qed

lemma sint_of_small_uint:
  fixes c :: "32 word"
  assumes "uint c < 2 ^ 31"
  shows "sint c = uint c"
proof -
  have a: "- (2 ^ 31) \<le> uint c" by (rule order_trans [of _ 0]) simp_all
  show ?thesis unfolding sint_uint using signed_take_bit_int_eq_self [OF a assms] by simp
qed

lemma int_div_le: "0 \<le> (a::int) \<Longrightarrow> 0 < b \<Longrightarrow> a div b \<le> a"
  by (metis div_0 int_div_le_self leI nle_le)

lemma sint_udiv:
  fixes c p :: "32 word"
  assumes "0 \<le> sint c" and "p \<noteq> 0"
  shows "sint (c div p) = trunc_div (sint c) (uint p)"
proof -
  have cu: "uint c = sint c" using assms(1) by (rule uint_of_nonneg_sint)
  have "uint p \<noteq> 0" using assms(2) by (simp add: uint_0_iff)
  then have ppos: "0 < uint p" using uint_ge_0 [of p] by arith
  have q: "uint (c div p) = sint c div uint p" by (simp add: uint_div cu)
  have "sint c div uint p \<le> sint c" using assms(1) ppos by (rule int_div_le)
  also have "sint c < 2 ^ 31" using sint_lt [of c] by simp
  finally have "uint (c div p) < 2 ^ 31" using q by simp
  then have "sint (c div p) = uint (c div p)" by (rule sint_of_small_uint)
  also have "\<dots> = trunc_div (sint c) (uint p)"
    using assms(1) ppos q by (simp add: trunc_div_def)
  finally show ?thesis .
qed

lemma trunc_div_example: "trunc_div (-7) 2 = -3 \<and> trunc_div 7692308 1000 = 7692"
  by (simp add: trunc_div_def)

lemma own_irq_after_init: "irq0 \<noteq> -1 \<Longrightarrow> own_irq (after_init irq0) 0"
  by (simp add: own_irq_def after_init_def static_init_def)

lemma on_edge_zero_period:
  assumes "i < 5" and "own_irq s i" and "last_pulse_time s ! i = t"
  shows "on_edge i t s = Inl DivisionByZero"
  using assms(3) by (simp add: on_edge_single [OF assms(1,2)] isr_channel_zero)

lemma on_edge_stale_period:
  assumes "wf_state s" and "i < 5" and "own_irq s i"
    and "on_edge i t0 s = Inr s1" and "1000000 \<le> p"
  shows "\<exists>s2. on_edge i (t0 + p) s1 = Inr s2 \<and> voltages s2 = voltages s1 \<and>
           last_pulse_time s2 ! i = t0 + p"
proof -
  from assms(4) have c1: "isr_channel i t0 t0 s = Inr s1"
    by (simp add: on_edge_single [OF assms(2,3)])
  from isr_channel_keeps [OF c1] have k: "vcf_irqs s1 = vcf_irqs s" by simp
  have wf1: "wf_state s1" using c1 assms(1) by (rule isr_channel_wf)
  have own1: "own_irq s1 i" using assms(3) k by (simp add: own_irq_def)
  have il0: "i < length (last_pulse_time s)" using assms(1,2) by (simp add: wf_state_def)
  have il1: "i < length (last_pulse_time s1)" using wf1 assms(2) by (simp add: wf_state_def)
  have l: "last_pulse_time s1 ! i = t0" using c1 il0 by (rule isr_channel_last)
  have d: "t0 + p - last_pulse_time s1 ! i = p" by (simp add: l)
  have "\<not> t0 + p - last_pulse_time s1 ! i < 1000000" unfolding d using assms(5) by simp
  from isr_channel_stale [OF this, of "t0 + p"]
  obtain s2 where s2: "isr_channel i (t0 + p) (t0 + p) s1 = Inr s2"
    and v: "voltages s2 = voltages s1" by blast
  have "last_pulse_time s2 ! i = t0 + p" using s2 il1 by (rule isr_channel_last)
  moreover have "on_edge i (t0 + p) s1 = Inr s2"
    using s2 by (simp add: on_edge_single [OF assms(2) own1])
  ultimately show ?thesis using v by blast
qed

lemma render_frame: "\<exists>buf. fst (render dm s) = s\<lparr>txt_buffer := buf\<rparr>"
  by (auto simp: render_def Let_def split: prod.splits)

lemma copy_out_snd: "snd (copy_out dm uspace s1 txt_len count offset) = s1"
  by (simp add: copy_out_def Let_def)

lemma isov_misc_read_frame:
  "\<exists>buf. snd (isov_misc_read dm uspace s count offset) = s\<lparr>txt_buffer := buf\<rparr>"
proof (cases "len_minus_offset dm 0 offset \<le> 0")
  case True
  obtain buf where b: "fst (render dm s) = s\<lparr>txt_buffer := buf\<rparr>"
    using render_frame by blast
  have "snd (isov_misc_read dm uspace s count offset) = fst (render dm s)"
    using True by (simp add: isov_misc_read_def copy_out_snd Let_def split: prod.splits)
  with b have "snd (isov_misc_read dm uspace s count offset) = s\<lparr>txt_buffer := buf\<rparr>"
    by simp
  then show ?thesis by (rule exI)
next
  case False
  have "snd (isov_misc_read dm uspace s count offset) = s"
    using False by (simp add: isov_misc_read_def copy_out_snd Let_def split: prod.splits)
  then have "snd (isov_misc_read dm uspace s count offset) = s\<lparr>txt_buffer := txt_buffer s\<rparr>"
    by simp
  then show ?thesis by (rule exI)
qed

text \<open>The effect of a run of the handler on a channel whose interrupt number it was given.\<close>

lemma isr_channel_result:
  assumes "isr_channel i a b s = Inr s'"
  shows "a \<noteq> last_pulse_time s ! i \<and>
         time_diff s' = a - last_pulse_time s ! i \<and>
         last_pulse_time s' = (last_pulse_time s)[i := b] \<and>
         voltages s' =
           (if a - last_pulse_time s ! i < 1000000
            then (voltages s)[i := calib_coeficients s ! i div (a - last_pulse_time s ! i)]
            else voltages s)"
  using assms by (auto simp: isr_channel_def Let_def split: if_splits)

lemma isr_channel_returns:
  assumes "a \<noteq> last_pulse_time s ! i"
  shows "\<exists>s'. isr_channel i a b s = Inr s'"
  using assms by (simp add: isr_channel_def Let_def)

lemma isr_loop_returns:
  assumes "distinct js"
    and "\<forall>j \<in> set js. vcf_irqs s ! j = irq \<longrightarrow> fst (tm j) \<noteq> last_pulse_time s ! j"
  shows "\<exists>s'. isr_loop tm irq js s = Inr s'"
  using assms
proof (induction js arbitrary: s)
  case Nil
  then show ?case by simp
next
  case (Cons j js)
  have d: "distinct js" and nj: "j \<notin> set js" using Cons.prems(1) by simp_all
  show ?case
  proof (cases "irq = vcf_irqs s ! j")
    case True
    with Cons.prems(2) have "fst (tm j) \<noteq> last_pulse_time s ! j" by simp
    then obtain s1 where c: "isr_channel j (fst (tm j)) (snd (tm j)) s = Inr s1"
      using isr_channel_returns by blast
    have k: "vcf_irqs s1 = vcf_irqs s" using isr_channel_keeps [OF c] by simp
    have "\<forall>k \<in> set js. vcf_irqs s1 ! k = irq \<longrightarrow> fst (tm k) \<noteq> last_pulse_time s1 ! k"
    proof (intro ballI impI)
      fix k assume kin: "k \<in> set js" and m: "vcf_irqs s1 ! k = irq"
      then have "k \<noteq> j" using nj by auto
      then have "last_pulse_time s1 ! k = last_pulse_time s ! k"
        using isr_channel_other [OF c] by simp
      moreover have "fst (tm k) \<noteq> last_pulse_time s ! k" using Cons.prems(2) kin m k by simp
      ultimately show "fst (tm k) \<noteq> last_pulse_time s1 ! k" by simp
    qed
    from Cons.IH [OF d this] obtain s' where "isr_loop tm irq js s1 = Inr s'" by blast
    with True c show ?thesis by simp
  next
    case False
    have "\<forall>k \<in> set js. vcf_irqs s ! k = irq \<longrightarrow> fst (tm k) \<noteq> last_pulse_time s ! k"
      using Cons.prems(2) by simp
    from Cons.IH [OF d this] False show ?thesis by simp
  qed
qed

lemma isr_loop_notin:
  "isr_loop tm irq js s = Inr s' \<Longrightarrow> i \<notin> set js \<Longrightarrow>
     last_pulse_time s' ! i = last_pulse_time s ! i \<and> voltages s' ! i = voltages s ! i"
proof (induction js arbitrary: s)
  case Nil
  then show ?case by simp
next
  case (Cons j js)
  have ne: "i \<noteq> j" and ni: "i \<notin> set js" using Cons.prems(2) by simp_all
  show ?case
  proof (cases "irq = vcf_irqs s ! j")
    case True
    with Cons.prems(1) obtain s1 where
      c: "isr_channel j (fst (tm j)) (snd (tm j)) s = Inr s1" and l: "isr_loop tm irq js s1 = Inr s'"
      by (auto split: sum.splits)
    from Cons.IH [OF l ni] isr_channel_other [OF c ne] show ?thesis by simp
  next
    case False
    with Cons.prems(1) have "isr_loop tm irq js s = Inr s'" by simp
    from Cons.IH [OF this ni] show ?thesis .
  qed
qed

lemma isr_loop_channel:
  assumes "distinct js" and "i \<in> set js" and "vcf_irqs s ! i = irq"
    and "i < length (last_pulse_time s)" and "i < length (voltages s)"
    and "isr_loop tm irq js s = Inr s'"
  shows "last_pulse_time s' ! i = snd (tm i) \<and>
         voltages s' ! i =
           (if fst (tm i) - last_pulse_time s ! i < 1000000
            then calib_coeficients s ! i div (fst (tm i) - last_pulse_time s ! i)
            else voltages s ! i)"
  using assms
proof (induction js arbitrary: s)
  case Nil
  then show ?case by simp
next
  case (Cons j js)
  have d: "distinct js" and nj: "j \<notin> set js" using Cons.prems(1) by simp_all
  show ?case
  proof (cases "j = i")
    case True
    with Cons.prems(3,6) obtain s1 where
      c: "isr_channel i (fst (tm i)) (snd (tm i)) s = Inr s1" and l: "isr_loop tm irq js s1 = Inr s'"
      by (auto split: sum.splits)
    have ni: "i \<notin> set js" using nj True by simp
    note r = isr_channel_result [OF c]
    have a: "last_pulse_time s1 ! i = snd (tm i)" using r Cons.prems(4) by simp
    have b: "voltages s1 ! i =
           (if fst (tm i) - last_pulse_time s ! i < 1000000
            then calib_coeficients s ! i div (fst (tm i) - last_pulse_time s ! i)
            else voltages s ! i)"
      using r Cons.prems(5) by simp
    from isr_loop_notin [OF l ni] a b show ?thesis by simp
  next
    case False
    then have iin: "i \<in> set js" using Cons.prems(2) by simp
    show ?thesis
    proof (cases "irq = vcf_irqs s ! j")
      case True
      with Cons.prems(6) obtain s1 where
        c: "isr_channel j (fst (tm j)) (snd (tm j)) s = Inr s1" and l: "isr_loop tm irq js s1 = Inr s'"
        by (auto split: sum.splits)
      have ne: "i \<noteq> j" using False by simp
      note k = isr_channel_keeps [OF c]
      note o = isr_channel_other [OF c ne]
      have p3: "vcf_irqs s1 ! i = irq" using k Cons.prems(3) by simp
      have p4: "i < length (last_pulse_time s1)" using k Cons.prems(4) by simp
      have p5: "i < length (voltages s1)" using k Cons.prems(5) by simp
      from Cons.IH [OF d iin p3 p4 p5 l] show ?thesis using k o by simp
    next
      case False
      with Cons.prems(6) have l: "isr_loop tm irq js s = Inr s'" by simp
      from Cons.IH [OF d iin Cons.prems(3,4,5) l] show ?thesis .
    qed
  qed
qed

lemma set_channels: "set [0, 1, 2, 3, 4] = {j. j < (5::nat)}"
  by auto

lemma vcf_isr_channel:
  assumes "wf_state s" and "i < 5" and "vcf_irqs s ! i = irq" and "vcf_isr tm irq s = Inr s'"
  shows "last_pulse_time s' ! i = snd (tm i) \<and>
         voltages s' ! i =
           (if fst (tm i) - last_pulse_time s ! i < 1000000
            then calib_coeficients s ! i div (fst (tm i) - last_pulse_time s ! i)
            else voltages s ! i)"
proof -
  have d: "distinct [0, 1, 2, 3, 4::nat]" by simp
  have m: "i \<in> set [0, 1, 2, 3, 4]" unfolding set_channels using assms(2) by simp
  have l1: "i < length (last_pulse_time s)" and l2: "i < length (voltages s)"
    using assms(1,2) by (simp_all add: wf_state_def)
  have r: "isr_loop tm irq [0, 1, 2, 3, 4] s = Inr s'" using assms(4) by (simp only: vcf_isr_def)
  from isr_loop_channel [OF d m assms(3) l1 l2 r] show ?thesis .
qed

lemma vcf_isr_keeps:
  assumes "vcf_isr tm irq s = Inr s'"
  shows "vcf_irqs s' = vcf_irqs s \<and> calib_coeficients s' = calib_coeficients s \<and>
         txt_buffer s' = txt_buffer s" and "wf_state s \<Longrightarrow> wf_state s'"
proof -
  have r: "isr_loop tm irq [0, 1, 2, 3, 4] s = Inr s'" using assms by (simp only: vcf_isr_def)
  note k = isr_loop_keeps [OF r]
  show "vcf_irqs s' = vcf_irqs s \<and> calib_coeficients s' = calib_coeficients s \<and>
         txt_buffer s' = txt_buffer s" using k by simp
  show "wf_state s \<Longrightarrow> wf_state s'" using k by (simp add: wf_state_def)
qed

lemma vcf_isr_returns:
  assumes "\<forall>j<5. vcf_irqs s ! j = irq \<longrightarrow> fst (tm j) \<noteq> last_pulse_time s ! j"
  shows "\<exists>s'. vcf_isr tm irq s = Inr s'"
proof -
  have d: "distinct [0, 1, 2, 3, 4::nat]" by simp
  have "\<forall>j \<in> set [0, 1, 2, 3, 4]. vcf_irqs s ! j = irq \<longrightarrow> fst (tm j) \<noteq> last_pulse_time s ! j"
    using assms unfolding set_channels by simp
  from isr_loop_returns [OF d this] show ?thesis by (simp only: vcf_isr_def)
qed

text \<open>Two runs of the handler for the same interrupt number, one after the other.\<close>

lemma second_run:
  assumes "wf_state s" and "i < 5" and "vcf_irqs s ! i = irq"
    and "vcf_isr tm1 irq s = Inr s1"
    and "\<forall>j<5. vcf_irqs s ! j = irq \<longrightarrow> fst (tm2 j) \<noteq> snd (tm1 j)"
  shows "last_pulse_time s1 ! i = snd (tm1 i) \<and>
         (\<exists>s2. vcf_isr tm2 irq s1 = Inr s2 \<and> last_pulse_time s2 ! i = snd (tm2 i) \<and>
            voltages s2 ! i =
              (if fst (tm2 i) - snd (tm1 i) < 1000000
               then calib_coeficients s ! i div (fst (tm2 i) - snd (tm1 i))
               else voltages s1 ! i))"
proof -
  note k = vcf_isr_keeps(1) [OF assms(4)]
  have wf1: "wf_state s1" using assms(4,1) by (rule vcf_isr_keeps(2))
  have l: "\<And>j. j < 5 \<Longrightarrow> vcf_irqs s ! j = irq \<Longrightarrow> last_pulse_time s1 ! j = snd (tm1 j)"
    using vcf_isr_channel [OF assms(1) _ _ assms(4)] by simp
  have li: "last_pulse_time s1 ! i = snd (tm1 i)" using l assms(2,3) by simp
  have "\<forall>j<5. vcf_irqs s1 ! j = irq \<longrightarrow> fst (tm2 j) \<noteq> last_pulse_time s1 ! j"
    using assms(5) l k by simp
  then obtain s2 where e: "vcf_isr tm2 irq s1 = Inr s2" using vcf_isr_returns by blast
  have i1: "vcf_irqs s1 ! i = irq" using k assms(3) by simp
  from vcf_isr_channel [OF wf1 assms(2) i1 e] li k
  have "last_pulse_time s2 ! i = snd (tm2 i) \<and>
            voltages s2 ! i =
              (if fst (tm2 i) - snd (tm1 i) < 1000000
               then calib_coeficients s ! i div (fst (tm2 i) - snd (tm1 i))
               else voltages s1 ! i)" by simp
  with e li show ?thesis by blast
qed

lemma second_run_time_diff:
  assumes "i < 5" and "vcf_irqs s1 ! i = irq" and "\<forall>j<5. j \<noteq> i \<longrightarrow> vcf_irqs s1 ! j \<noteq> irq"
    and "vcf_isr tm irq s1 = Inr s2"
  shows "time_diff s2 = fst (tm i) - last_pulse_time s1 ! i"
proof -
  have d: "distinct [0, 1, 2, 3, 4::nat]" by simp
  have m: "i \<in> set [0, 1, 2, 3, 4]" unfolding set_channels using assms(1) by simp
  have o: "\<forall>j \<in> set [0, 1, 2, 3, 4]. j \<noteq> i \<longrightarrow> vcf_irqs s1 ! j \<noteq> vcf_irqs s1 ! i"
    using assms(2,3) unfolding set_channels by simp
  have "isr_loop tm (vcf_irqs s1 ! i) [0, 1, 2, 3, 4] s1 = isr_channel i (fst (tm i)) (snd (tm i)) s1"
    using d m o by (rule isr_loop_single)
  with assms(2,4) have "isr_channel i (fst (tm i)) (snd (tm i)) s1 = Inr s2"
    by (simp add: vcf_isr_def)
  from isr_channel_result [OF this] show ?thesis by simp
qed

lemma after_init_irq: "vcf_irqs (after_init irq0) ! 0 = irq0"
  by (simp add: after_init_def static_init_def)

lemma after_init_others: "irq0 \<noteq> -1 \<Longrightarrow> \<forall>j<5. j \<noteq> 0 \<longrightarrow> vcf_irqs (after_init irq0) ! j \<noteq> irq0"
proof (intro allI impI)
  fix j :: nat
  assume a: "irq0 \<noteq> -1" and "j < 5" and "j \<noteq> 0"
  then have "j = 1 \<or> j = 2 \<or> j = 3 \<or> j = 4" by arith
  then show "vcf_irqs (after_init irq0) ! j \<noteq> irq0"
    using a by (auto simp: after_init_def static_init_def)
qed

section \<open>Facts about rendering and reading\<close>

text \<open>\<open>dec_nat\<close> writes the decimal digits of its argument.\<close>

lemma digit_code: "d < 10 \<Longrightarrow> of_char (digit d) = 48 + d"
proof -
  assume "d < 10"
  then have "d = 0 \<or> d = 1 \<or> d = 2 \<or> d = 3 \<or> d = 4 \<or> d = 5 \<or> d = 6 \<or> d = 7 \<or> d = 8 \<or> d = 9"
    by arith
  then show ?thesis by (auto simp: digit_def)
qed

lemma dec_value_snoc: "dec_value (cs @ [c]) = 10 * dec_value cs + (of_char c - 48)"
  by (simp add: dec_value_def)

lemma dec_value_dec_nat: "dec_value (dec_nat n) = n"
proof (induction n rule: dec_nat.induct)
  case (1 n)
  show ?case
  proof (cases "n < 10")
    case True
    then have "dec_nat n = [digit n]" by (simp add: dec_nat.simps)
    then show ?thesis using True by (simp add: dec_value_def digit_code)
  next
    case False
    then have eq: "dec_nat n = dec_nat (n div 10) @ [digit (n mod 10)]"
      by (subst dec_nat.simps) simp
    have "n mod 10 < 10" by simp
    then have d: "of_char (digit (n mod 10)) = 48 + n mod 10" by (rule digit_code)
    show ?thesis unfolding eq dec_value_snoc "1.IH" [OF False] d by simp
  qed
qed

lemma length_dec_nat: "n < 10 ^ k \<Longrightarrow> 0 < k \<Longrightarrow> length (dec_nat n) \<le> k"
proof (induction n arbitrary: k rule: dec_nat.induct)
  case (1 n)
  show ?case
  proof (cases "n < 10")
    case True
    then have "dec_nat n = [digit n]" by (simp add: dec_nat.simps)
    with "1.prems" show ?thesis by simp
  next
    case False
    then have eq: "dec_nat n = dec_nat (n div 10) @ [digit (n mod 10)]"
      by (subst dec_nat.simps) simp
    obtain k' where k: "k = Suc k'" using "1.prems"(2) by (cases k) auto
    have "k' \<noteq> 0" using False "1.prems"(1) k by (cases k') auto
    then have kpos: "0 < k'" by simp
    have "n div 10 < 10 ^ k'" using "1.prems"(1) k by (simp add: less_mult_imp_div_less mult.commute)
    from "1.IH" [OF False this kpos] show ?thesis by (simp add: eq k)
  qed
qed

lemma dec_nat_nonempty: "dec_nat n \<noteq> []"
  by (subst dec_nat.simps) simp

lemma length_dec_int_sint:
  fixes v :: "32 word"
  shows "length (dec_int (sint v)) \<le> 11" and "1 \<le> length (dec_int (sint v))"
proof -
  have lo: "- (2 ^ 31) \<le> sint v" using sint_ge [of v] by simp
  have hi: "sint v < 2 ^ 31" using sint_lt [of v] by simp
  have a: "nat (- sint v) < 10 ^ 10" using lo by simp
  have b: "nat (sint v) < 10 ^ 10" using hi by simp
  have "length (dec_nat (nat (- sint v))) \<le> 10" using a by (rule length_dec_nat) simp
  moreover have "length (dec_nat (nat (sint v))) \<le> 10" using b by (rule length_dec_nat) simp
  ultimately show "length (dec_int (sint v)) \<le> 11" by (simp add: dec_int_def)
  have "dec_int (sint v) \<noteq> []" by (simp add: dec_int_def dec_nat_nonempty)
  then show "1 \<le> length (dec_int (sint v))" by (cases "dec_int (sint v)") simp_all
qed

lemma length_format_voltages_le: "length (format_voltages vs) \<le> 76"
  using length_dec_int_sint(1) [of "vs ! 0"] length_dec_int_sint(1) [of "vs ! 1"]
    length_dec_int_sint(1) [of "vs ! 2"] length_dec_int_sint(1) [of "vs ! 3"]
    length_dec_int_sint(1) [of "vs ! 4"]
  by (simp add: format_voltages_def)

lemma length_format_voltages_ge: "26 \<le> length (format_voltages vs)"
  using length_dec_int_sint(2) [of "vs ! 0"] length_dec_int_sint(2) [of "vs ! 1"]
    length_dec_int_sint(2) [of "vs ! 2"] length_dec_int_sint(2) [of "vs ! 3"]
    length_dec_int_sint(2) [of "vs ! 4"]
  by (simp add: format_voltages_def)

lemma rendered_length_ge: "27 \<le> rendered_length s"
  using length_format_voltages_ge [of "voltages s"] by (simp add: rendered_length_def snapshot_def)

lemma rendered_length_le: "rendered_length s \<le> 77"
  using length_format_voltages_le [of "voltages s"] by (simp add: rendered_length_def snapshot_def)

lemma to_size_t_id: "0 \<le> k \<Longrightarrow> k < 2 ^ 32 \<Longrightarrow> to_size_t dm k = k"
  by (cases dm) (simp_all add: to_size_t_def)

lemma snprintf_fits:
  assumes "length text < sz"
  shows "snprintf buf sz text = (text @ [CHR 0x00] @ drop (length text + 1) buf, int (length text))"
  using assms by (simp add: snprintf_def Let_def)

lemma render_eq:
  "render dm s =
     (s\<lparr>txt_buffer := snapshot s @ drop (rendered_length s) (txt_buffer s)\<rparr>,
      int (rendered_length s))"
proof -
  let ?t = "format_voltages (voltages s)"
  have len: "length ?t \<le> 76" by (rule length_format_voltages_le)
  then have fits: "length ?t < 256" by simp
  have a: "to_size_t dm (int (length ?t)) = int (length ?t)"
    using len by (intro to_size_t_id) simp_all
  have b: "to_size_t dm (int (length ?t) + 1) = int (length ?t) + 1"
    using len by (intro to_size_t_id) simp_all
  show ?thesis
    by (simp add: render_def snprintf_fits [OF fits] a b rendered_length_def snapshot_def)
qed

lemma len_minus_offset_small:
  "offset \<le> l \<Longrightarrow> l < 2 ^ 32 \<Longrightarrow> len_minus_offset dm (int l) offset = int (l - offset)"
  by (cases dm) (simp_all add: of_nat_diff)

lemma to_ssize_t_id: "k < 2 ^ 31 \<Longrightarrow> to_ssize_t dm k = k"
  by (cases dm) (simp_all add: to_ssize_t_def)

lemma copy_out_rendered:
  assumes "offset < l" and "l \<le> 77" and "0 < count" and "count < 2 ^ 31"
    and "min count (l - offset) < uspace"
  shows "copy_out dm uspace s1 (int l) count offset =
     (Inr (int (min count (l - offset)), take (min count (l - offset) + 1) (drop offset (txt_buffer s1))), s1)"
proof -
  let ?m = "min count (l - offset)"
  have d: "len_minus_offset dm (int l) offset = int (l - offset)"
    using assms(1,2) by (intro len_minus_offset_small) simp_all
  have sel: "(if int (l - offset) > int count then int count else int (l - offset)) = int ?m"
    by (simp add: min_def)
  have m1: "?m < 2 ^ 31" using assms(4) by simp
  have a: "to_size_t dm (int ?m) = int ?m" using m1 by (intro to_size_t_id) simp_all
  have b: "to_size_t dm (int ?m + 1) = int ?m + 1" using m1 by (intro to_size_t_id) simp_all
  have c: "to_ssize_t dm (int ?m) = int ?m" using m1 by (intro to_ssize_t_id) simp
  have e: "nat (int ?m + 1) = ?m + 1" by simp
  have m0: "\<not> int ?m \<le> 0" using assms(1,3) by simp
  have m2: "\<not> offset + (?m + 1) > 256" using assms(1,2) by simp
  have m3: "\<not> uspace < ?m + 1" using assms(5) by simp
  show ?thesis
    unfolding copy_out_def Let_def d sel a b c e using m0 m2 m3 by (simp only: if_False)
qed

lemma read_rendered:
  assumes "len_minus_offset dm 0 offset \<le> 0" and "offset < rendered_length s"
    and "0 < count" and "count < 2 ^ 31"
    and "min count (rendered_length s - offset) < uspace"
  shows "isov_misc_read dm uspace s count offset =
     (Inr (int (min count (rendered_length s - offset)),
           take (min count (rendered_length s - offset) + 1)
             (drop offset (snapshot s @ drop (rendered_length s) (txt_buffer s)))),
      s\<lparr>txt_buffer := snapshot s @ drop (rendered_length s) (txt_buffer s)\<rparr>)"
proof -
  let ?s1 = "s\<lparr>txt_buffer := snapshot s @ drop (rendered_length s) (txt_buffer s)\<rparr>"
  have "isov_misc_read dm uspace s count offset =
          copy_out dm uspace ?s1 (int (rendered_length s)) count offset"
    using assms(1) by (simp add: isov_misc_read_def render_eq)
  also have "\<dots> = (Inr (int (min count (rendered_length s - offset)),
        take (min count (rendered_length s - offset) + 1) (drop offset (txt_buffer ?s1))), ?s1)"
    using assms(2) rendered_length_le assms(3,4,5) by (rule copy_out_rendered)
  finally show ?thesis by simp
qed

lemma length_snapshot: "length (snapshot s) = rendered_length s"
  by (simp add: rendered_length_def)

lemma take_chunk:
  assumes "offset + m \<le> length xs"
  shows "take m (take (m + 1) (drop offset (xs @ ys))) = take m (drop offset xs)"
proof -
  have a: "take m (take (m + 1) (drop offset (xs @ ys))) = take m (drop offset (xs @ ys))"
    by (simp add: min_def)
  have b: "drop offset (xs @ ys) = drop offset xs @ drop (offset - length xs) ys" by simp
  have "m \<le> length (drop offset xs)" using assms by simp
  then have "take m (drop offset xs @ drop (offset - length xs) ys) = take m (drop offset xs)"
    by simp
  with a b show ?thesis by simp
qed

lemma neg_offset_mod:
  assumes "0 < offset" and "int offset < 2 ^ 64"
  shows "(- int offset) mod 2 ^ 64 = 2 ^ 64 - int offset"
  using assms by (simp add: zmod_zminus1_eq_if)

lemma read_rendered_data:
  assumes "len_minus_offset dm 0 offset \<le> 0" and "offset < rendered_length s"
    and "0 < count" and "count < 2 ^ 31"
    and "min count (rendered_length s - offset) < uspace"
  shows "read_data (fst (isov_misc_read dm uspace s count offset)) =
           take (min count (rendered_length s - offset)) (drop offset (snapshot s))"
proof -
  have "offset + min count (rendered_length s - offset) \<le> length (snapshot s)"
    using assms(2) by (simp add: length_snapshot)
  then have "take (min count (rendered_length s - offset))
          (take (min count (rendered_length s - offset) + 1)
             (drop offset (snapshot s @ drop (rendered_length s) (txt_buffer s)))) =
        take (min count (rendered_length s - offset)) (drop offset (snapshot s))"
    by (rule take_chunk)
  then show ?thesis
    by (simp add: read_rendered [OF assms] read_data_def del: take_append drop_append)
qed

lemma copy_out_stale:
  assumes "0 < offset" and "0 < count" and "offset + count + 1 \<le> 256" and "count < uspace"
  shows "copy_out LP64 uspace s1 0 count offset =
           (Inr (int count, take (count + 1) (drop offset (txt_buffer s1))), s1)"
proof -
  have o: "int offset < 2 ^ 64" using assms(3) by simp
  have d: "len_minus_offset LP64 0 offset = 2 ^ 64 - int offset"
    using neg_offset_mod [OF assms(1) o] by simp
  have sel: "(if 2 ^ 64 - int offset > int count then int count else 2 ^ 64 - int offset) = int count"
    using assms(3) by simp
  have c0: "int count < 2 ^ 32" using assms(3) by simp
  have c1: "int count < 2 ^ 31" using assms(3) by simp
  have a: "to_size_t LP64 (int count) = int count" using c0 by (intro to_size_t_id) simp_all
  have b: "to_size_t LP64 (int count + 1) = int count + 1" using assms(3) by (intro to_size_t_id) simp_all
  have c: "to_ssize_t LP64 (int count) = int count" using c1 by (rule to_ssize_t_id)
  have e: "nat (int count + 1) = count + 1" by simp
  have m0: "\<not> int count \<le> 0" using assms(2) by simp
  have m2: "\<not> offset + (count + 1) > 256" using assms(3) by simp
  have m3: "\<not> uspace < count + 1" using assms(4) by simp
  show ?thesis
    unfolding copy_out_def Let_def d sel a b c e using m0 m2 m3 by (simp only: if_False)
qed

lemma read_stale:
  assumes "0 < offset" and "0 < count" and "offset + count + 1 \<le> 256" and "count < uspace"
  shows "isov_misc_read LP64 uspace s count offset =
           (Inr (int count, take (count + 1) (drop offset (txt_buffer s))), s)"
proof -
  have o: "int offset < 2 ^ 64" using assms(3) by simp
  have "\<not> len_minus_offset LP64 0 offset \<le> 0"
    using neg_offset_mod [OF assms(1) o] o by simp
  then have "isov_misc_read LP64 uspace s count offset = copy_out LP64 uspace s 0 count offset"
    by (simp add: isov_misc_read_def)
  with copy_out_stale [OF assms] show ?thesis by simp
qed

lemma read_offset0_state:
  "snd (isov_misc_read dm uspace s count 0) =
     s\<lparr>txt_buffer := snapshot s @ drop (rendered_length s) (txt_buffer s)\<rparr>"
proof -
  have "len_minus_offset dm 0 0 \<le> 0" by (cases dm) simp_all
  then show ?thesis by (simp add: isov_misc_read_def render_eq copy_out_snd)
qed

lemma snapshot_txt_buffer_update [simp]: "snapshot (s\<lparr>txt_buffer := b\<rparr>) = snapshot s"
  by (simp add: snapshot_def)

lemma rendered_length_txt_buffer_update [simp]:
  "rendered_length (s\<lparr>txt_buffer := b\<rparr>) = rendered_length s"
  by (simp add: rendered_length_def)

lemma read_as_copy_out:
  "isov_misc_read dm uspace s count offset =
     copy_out dm uspace
       (fst (if len_minus_offset dm 0 offset \<le> 0 then render dm s else (s, 0)))
       (snd (if len_minus_offset dm 0 offset \<le> 0 then render dm s else (s, 0))) count offset"
  by (simp add: isov_misc_read_def case_prod_unfold Let_def)

lemma copy_out_enodata_iff:
  "fst (copy_out dm uspace s1 txt_len count offset) = Inl ENODATA \<longleftrightarrow>
     to_size_t dm (if len_minus_offset dm txt_len offset > int count then int count
                   else len_minus_offset dm txt_len offset) \<le> 0"
  by (simp add: copy_out_def Let_def)

lemma to_size_t_range: "0 \<le> to_size_t dm k \<and> to_size_t dm k < 2 ^ size_bits dm"
  by (simp add: to_size_t_def)

lemma to_ssize_t_nonzero:
  assumes "0 < k" and "k < 2 ^ size_bits dm"
  shows "to_ssize_t dm k \<noteq> 0"
  using assms by (simp add: to_ssize_t_def)

lemma copy_out_nonzero: "fst (copy_out dm uspace s1 txt_len count offset) \<noteq> Inr (0, copied)"
proof -
  let ?len = "to_size_t dm (if len_minus_offset dm txt_len offset > int count then int count
                   else len_minus_offset dm txt_len offset)"
  show ?thesis
  proof (cases "?len \<le> 0")
    case True
    then show ?thesis by (simp add: copy_out_def Let_def)
  next
    case False
    then have "0 < ?len" by simp
    moreover have "?len < 2 ^ size_bits dm" using to_size_t_range by blast
    ultimately have "to_ssize_t dm ?len \<noteq> 0" by (rule to_ssize_t_nonzero)
    then show ?thesis using False by (simp add: copy_out_def Let_def)
  qed
qed

lemma read_nonzero: "fst (isov_misc_read dm uspace s count offset) \<noteq> Inr (0, copied)"
  unfolding read_as_copy_out by (rule copy_out_nonzero)

lemma enodata_rendered:
  assumes "len_minus_offset dm 0 offset \<le> 0" and "offset \<le> rendered_length s"
    and "count < 2 ^ 31"
  shows "fst (isov_misc_read dm uspace s count offset) = Inl ENODATA \<longleftrightarrow>
           count = 0 \<or> offset = rendered_length s"
proof -
  let ?L = "rendered_length s"
  have L: "?L \<le> 77" by (rule rendered_length_le)
  have a: "to_size_t dm (int (min count (?L - offset))) = int (min count (?L - offset))"
    using assms(3) by (intro to_size_t_id) simp_all
  have d: "len_minus_offset dm (int ?L) offset = int (?L - offset)"
    using assms(2) L by (intro len_minus_offset_small) simp_all
  have sel: "(if int (?L - offset) > int count then int count else int (?L - offset)) =
        int (min count (?L - offset))"
    by (simp add: min_def)
  have "fst (isov_misc_read dm uspace s count offset) = Inl ENODATA \<longleftrightarrow>
      to_size_t dm (int (min count (?L - offset))) \<le> 0"
    unfolding read_as_copy_out copy_out_enodata_iff using assms(1)
    by (simp add: render_eq d sel del: len_minus_offset.simps)
  also have "\<dots> \<longleftrightarrow> count = 0 \<or> offset = ?L" unfolding a using assms(2) by (auto simp: min_def)
  finally show ?thesis .
qed

lemma enodata_ilp32:
  assumes "offset \<le> rendered_length s" and "count < 2 ^ 31"
  shows "fst (isov_misc_read ILP32 uspace s count offset) = Inl ENODATA \<longleftrightarrow>
           count = 0 \<or> offset = rendered_length s"
proof -
  have "len_minus_offset ILP32 0 offset \<le> 0" by simp
  then show ?thesis using assms by (rule enodata_rendered)
qed

lemma enodata_lp64:
  assumes "int offset < 2 ^ 63" and "count < 2 ^ 31"
  shows "fst (isov_misc_read LP64 uspace s count offset) = Inl ENODATA \<longleftrightarrow> count = 0"
proof (cases "offset = 0")
  case True
  have r: "len_minus_offset LP64 0 offset \<le> 0" using True by simp
  have o: "offset \<le> rendered_length s" using True by simp
  have "offset \<noteq> rendered_length s" using True rendered_length_ge [of s] by simp
  with enodata_rendered [OF r o assms(2)] show ?thesis by simp
next
  case False
  then have p: "0 < offset" by simp
  have o: "int offset < 2 ^ 64" using assms(1) by simp
  have d: "(- int offset) mod 2 ^ 64 = 2 ^ 64 - int offset" using p o by (rule neg_offset_mod)
  have a: "to_size_t LP64 (int count) = int count" using assms(2) by (intro to_size_t_id) simp_all
  have d': "len_minus_offset LP64 0 offset = 2 ^ 64 - int offset" using d by simp
  have g: "int count < len_minus_offset LP64 0 offset" unfolding d' using assms by simp
  have n: "\<not> len_minus_offset LP64 0 offset \<le> 0" unfolding d' using o by simp
  have "fst (isov_misc_read LP64 uspace s count offset) = Inl ENODATA \<longleftrightarrow>
      to_size_t LP64 (int count) \<le> 0"
    unfolding read_as_copy_out copy_out_enodata_iff using g n
    by (simp del: len_minus_offset.simps)
  also have "\<dots> \<longleftrightarrow> count = 0" unfolding a by simp
  finally show ?thesis .
qed

lemma dec_int_7692: "dec_int 7692 = ''7692''"
  by (simp add: dec_int_def dec_nat.simps digit_def)

lemma snapshot_after_init:
  "snapshot (after_init irq0) = ''V1=0 V2=0 V3=0 V4=0 V5=0 '' @ [CHR 0x0A, CHR 0x00]"
  by (simp add: snapshot_def format_voltages_def dec_int_def dec_nat.simps digit_def
      after_init_def static_init_def)

lemma rendered_length_after_init: "rendered_length (after_init irq0) = 27"
  by (simp add: rendered_length_def snapshot_after_init)

text \<open>The conversion writes a signed decimal integer of no fixed width.\<close>

lemma is_digit_digit: "d < 10 \<Longrightarrow> is_digit (digit d)"
proof -
  assume "d < 10"
  then have "d = 0 \<or> d = 1 \<or> d = 2 \<or> d = 3 \<or> d = 4 \<or> d = 5 \<or> d = 6 \<or> d = 7 \<or> d = 8 \<or> d = 9"
    by arith
  then show ?thesis by (auto simp: digit_def is_digit_def)
qed

lemma digit_zero_iff: "d < 10 \<Longrightarrow> digit d = CHR ''0'' \<longleftrightarrow> d = 0"
proof -
  assume "d < 10"
  then have "d = 0 \<or> d = 1 \<or> d = 2 \<or> d = 3 \<or> d = 4 \<or> d = 5 \<or> d = 6 \<or> d = 7 \<or> d = 8 \<or> d = 9"
    by arith
  then show ?thesis by (auto simp: digit_def)
qed

lemma is_digit_not_minus: "is_digit c \<Longrightarrow> c \<noteq> CHR ''-''"
  by (auto simp: is_digit_def)

lemma dec_nat_digits: "list_all is_digit (dec_nat n)"
proof (induction n rule: dec_nat.induct)
  case (1 n)
  show ?case
  proof (cases "n < 10")
    case True
    then show ?thesis by (simp add: dec_nat.simps is_digit_digit)
  next
    case False
    then have eq: "dec_nat n = dec_nat (n div 10) @ [digit (n mod 10)]"
      by (subst dec_nat.simps) simp
    have "is_digit (digit (n mod 10))" by (rule is_digit_digit) simp
    with "1.IH" [OF False] show ?thesis by (simp add: eq)
  qed
qed

lemma dec_nat_zero: "dec_nat 0 = ''0''"
  by (simp add: dec_nat.simps digit_def)

lemma dec_nat_no_leading_zero: "0 < n \<Longrightarrow> hd (dec_nat n) \<noteq> CHR ''0''"
proof (induction n rule: dec_nat.induct)
  case (1 n)
  show ?case
  proof (cases "n < 10")
    case True
    then have "dec_nat n = [digit n]" by (simp add: dec_nat.simps)
    then show ?thesis using True "1.prems" by (simp add: digit_zero_iff)
  next
    case False
    then have eq: "dec_nat n = dec_nat (n div 10) @ [digit (n mod 10)]"
      by (subst dec_nat.simps) simp
    have "0 < n div 10" using False by simp
    from "1.IH" [OF False this] show ?thesis by (simp add: eq dec_nat_nonempty)
  qed
qed

lemma hd_dec_nat_not_minus: "hd (dec_nat n) \<noteq> CHR ''-''"
proof -
  have "is_digit (hd (dec_nat n))"
    using dec_nat_digits [of n] dec_nat_nonempty [of n] by (cases "dec_nat n") simp_all
  then show ?thesis by (rule is_digit_not_minus)
qed

lemma unsigned_part_dec_nat: "unsigned_part (dec_nat n) = dec_nat n"
  using hd_dec_nat_not_minus [of n] dec_nat_nonempty [of n]
  by (cases "dec_nat n") (simp_all add: unsigned_part_def)

lemma plain_decimal_dec_int: "plain_decimal (dec_int k)"
proof (cases "k < 0")
  case True
  then have p: "0 < nat (- k)" by simp
  have u: "unsigned_part (dec_int k) = dec_nat (nat (- k))"
    using True by (simp add: dec_int_def unsigned_part_def)
  show ?thesis
    unfolding plain_decimal_def u
    using dec_nat_no_leading_zero [OF p] by (simp add: dec_nat_nonempty dec_nat_digits)
next
  case False
  then have e: "dec_int k = dec_nat (nat k)" by (simp add: dec_int_def)
  have z: "hd (dec_nat (nat k)) = CHR ''0'' \<longrightarrow> dec_nat (nat k) = ''0''"
  proof
    assume h: "hd (dec_nat (nat k)) = CHR ''0''"
    have "\<not> 0 < nat k" using dec_nat_no_leading_zero [of "nat k"] h by blast
    then have "nat k = 0" by simp
    then show "dec_nat (nat k) = ''0''" by (simp add: dec_nat_zero)
  qed
  show ?thesis
    unfolding plain_decimal_def e unsigned_part_dec_nat
    using z by (simp add: dec_nat_nonempty dec_nat_digits)
qed

lemma decimal_value_dec_int: "decimal_value (dec_int k) = k"
proof (cases "k < 0")
  case True
  then show ?thesis by (simp add: dec_int_def decimal_value_def dec_value_dec_nat)
next
  case False
  then have e: "dec_int k = dec_nat (nat k)" by (simp add: dec_int_def)
  obtain c r where cr: "dec_nat (nat k) = c # r"
    using dec_nat_nonempty [of "nat k"] by (cases "dec_nat (nat k)") auto
  have "c \<noteq> CHR ''-''" using hd_dec_nat_not_minus [of "nat k"] cr by simp
  then have "decimal_value (dec_nat (nat k)) = int (dec_value (dec_nat (nat k)))"
    by (simp add: decimal_value_def cr)
  then show ?thesis using False by (simp add: e dec_value_dec_nat)
qed

lemma plain_decimal_examples:
  "plain_decimal ''7692'' \<and> plain_decimal ''-5'' \<and> plain_decimal ''0'' \<and>
   \<not> plain_decimal ''007'' \<and> \<not> plain_decimal '' 7'' \<and> \<not> plain_decimal ''-0'' \<and>
   \<not> plain_decimal ''-'' \<and> \<not> plain_decimal '''' \<and>
   decimal_value ''7692'' = 7692 \<and> decimal_value ''-5'' = -5"
  by (simp add: plain_decimal_def unsigned_part_def is_digit_def decimal_value_def dec_value_def)

text \<open>Reads through the file position.\<close>

lemma file_read_eq:
  "file_read dm uspace f count =
     (fst (isov_misc_read dm uspace (fst f) count (snd f)),
      (snd (isov_misc_read dm uspace (fst f) count (snd f)), snd f))"
  by (simp add: file_read_def case_prod_unfold Let_def)

lemma file_read_position: "snd (snd (file_read dm uspace f count)) = snd f"
  by (simp add: file_read_eq)

lemma file_read_start:
  assumes "0 < count" and "count < 2 ^ 31" and "min count (rendered_length s) < uspace"
  shows "read_data (fst (file_read dm uspace (s, 0) count)) =
           take (min count (rendered_length s)) (snapshot s)"
    and "snd (file_read dm uspace (s, 0) count) =
           (s\<lparr>txt_buffer := snapshot s @ drop (rendered_length s) (txt_buffer s)\<rparr>, 0)"
proof -
  have r: "len_minus_offset dm 0 0 \<le> 0" by (cases dm) simp_all
  have p: "0 < rendered_length s" using rendered_length_ge [of s] by simp
  have u: "min count (rendered_length s - 0) < uspace" using assms(3) by simp
  from read_rendered_data [OF r p assms(1,2) u]
  show "read_data (fst (file_read dm uspace (s, 0) count)) =
           take (min count (rendered_length s)) (snapshot s)"
    by (simp add: file_read_eq)
  show "snd (file_read dm uspace (s, 0) count) =
           (s\<lparr>txt_buffer := snapshot s @ drop (rendered_length s) (txt_buffer s)\<rparr>, 0)"
    by (simp add: file_read_eq read_offset0_state)
qed

lemma file_read_twice:
  assumes "0 < c1" and "c1 < 2 ^ 31" and "min c1 (rendered_length s) < uspace"
    and "0 < c2" and "c2 < 2 ^ 31" and "min c2 (rendered_length s) < uspace"
  shows "read_data (fst (file_read dm uspace (snd (file_read dm uspace (s, 0) c1)) c2)) =
           take (min c2 (rendered_length s)) (snapshot s)"
proof -
  let ?s1 = "s\<lparr>txt_buffer := snapshot s @ drop (rendered_length s) (txt_buffer s)\<rparr>"
  have u: "min c2 (rendered_length ?s1) < uspace" using assms(6) by simp
  from file_read_start(1) [OF assms(4,5) u, of dm]
  show ?thesis unfolding file_read_start(2) [OF assms(1,2,3)] by simp
qed

text \<open>
  What the read function does at offsets other than 0, which the file layer does not
  present: at the rendered length, and inside the snapshot.
\<close>

lemma read_at_rendered_length:
  "rendered_length (after_init 79) = 27 \<and>
   fst (isov_misc_read ILP32 4096 (after_init 79) 10 27) = Inl ENODATA \<and>
   length (read_data (fst (isov_misc_read LP64 4096 (after_init 79) 10 27))) = 10"
proof -
  have a: "fst (isov_misc_read ILP32 4096 (after_init 79) 10 27) = Inl ENODATA"
    by (simp add: enodata_ilp32 rendered_length_after_init)
  have c: "isov_misc_read LP64 4096 (after_init 79) 10 27 =
      (Inr (int 10, take (10 + 1) (drop 27 (txt_buffer (after_init 79)))), after_init 79)"
    by (rule read_stale) simp_all
  have d: "length (read_data (fst (isov_misc_read LP64 4096 (after_init 79) 10 27))) = 10"
    unfolding c by (simp add: read_data_def after_init_def static_init_def)
  from a d show ?thesis by (simp add: rendered_length_after_init)
qed

lemma read_lp64_inside_snapshot:
  "length (read_data (fst (isov_misc_read LP64 4096
     (snd (isov_misc_read LP64 4096 (after_init 79) 5 0)) 100 5))) = 100 \<and>
   length (read_data (fst (isov_misc_read ILP32 4096
     (snd (isov_misc_read ILP32 4096 (after_init 79) 5 0)) 100 5))) = 22"
proof -
  let ?s1 = "snd (isov_misc_read LP64 4096 (after_init 79) 5 0)"
  have c: "isov_misc_read LP64 4096 ?s1 100 5 =
      (Inr (int 100, take (100 + 1) (drop 5 (txt_buffer ?s1))), ?s1)"
    by (rule read_stale) simp_all
  have d: "length (read_data (fst (isov_misc_read LP64 4096 ?s1 100 5))) = 100"
    unfolding c
    by (simp add: read_data_def read_offset0_state length_snapshot rendered_length_after_init)
      (simp add: after_init_def static_init_def)
  have r: "len_minus_offset ILP32 0 5 \<le> 0" by simp
  let ?t1 = "snd (isov_misc_read ILP32 4096 (after_init 79) 5 0)"
  have L: "rendered_length ?t1 = 27" by (simp add: read_offset0_state rendered_length_after_init)
  have "read_data (fst (isov_misc_read ILP32 4096 ?t1 100 5)) =
      take (min 100 (rendered_length ?t1 - 5)) (drop 5 (snapshot ?t1))"
    by (rule read_rendered_data [OF r]) (simp_all add: L)
  then have e: "length (read_data (fst (isov_misc_read ILP32 4096 ?t1 100 5))) = 22"
    by (simp add: L length_snapshot)
  from d e show ?thesis by simp
qed

section \<open>Claims about the edge handler\<close>

text \<open>
  Claim C1.  The handler does divide by a period of 0.  The test before the division
  is \<^verbatim>\<open>time_diff < 1000000\<close> alone, which a period of 0 passes: on the state left by
  module initialisation, where \<^verbatim>\<open>last_pulse_time[0]\<close> is 0, an edge of channel 0 read at
  timer value 0 reaches the division with a zero divisor.  The lemma
  \<open>on_edge_zero_period\<close> says so for every channel and timestamp.
\<close>

theorem first_edge_zero_period:
  "on_edge 0 0 (after_init 79) = Inl DivisionByZero"
  by (simp add: on_edge_def vcf_isr_def isr_channel_def after_init_def static_init_def)

text \<open>
  Claim C2.  The handler reads the timer twice in a run: the first value gives the
  period, the second is stored in \<^verbatim>\<open>last_pulse_time\<close>.  For a channel \<open>i\<close> of the
  interrupt number \<open>irq\<close> whose calibration coefficient is not negative (the source
  initialises all five to 7692308 and never writes them): when a run with the timer
  values \<open>tm1\<close> has been handled, it has stored the timestamp \<open>snd (tm1 i)\<close>; and when the
  next run reads a value that lies a period \<open>p\<close> with \<open>0 < p < 1000000\<close> after that
  timestamp, it is handled without error and leaves in \<^verbatim>\<open>voltages[i]\<close> the coefficient
  divided by \<open>p\<close>, truncated towards zero, and its own timestamp in
  \<^verbatim>\<open>last_pulse_time[i]\<close>.  Other channels that have the same interrupt number must not
  have a period of 0 in that run.  \<^verbatim>\<open>on_edge(i, t0)\<close> followed by \<^verbatim>\<open>on_edge(i, t0 + p)\<close>
  is the case \<open>tm1 = (\<lambda>_. (t0, t0))\<close>, \<open>tm2 = (\<lambda>_. (t0 + p, t0 + p))\<close>.
\<close>

theorem valid_period_voltage:
  assumes "wf_state s" and "i < 5" and "vcf_irqs s ! i = irq"
    and "vcf_isr tm1 irq s = Inr s1"
    and "fst (tm2 i) = snd (tm1 i) + p" and "0 < p" and "p < 1000000"
    and "0 \<le> sint (calib_coeficients s ! i)"
    and "\<forall>j<5. j \<noteq> i \<and> vcf_irqs s ! j = irq \<longrightarrow> fst (tm2 j) \<noteq> snd (tm1 j)"
  shows "last_pulse_time s1 ! i = snd (tm1 i) \<and>
         (\<exists>s2. vcf_isr tm2 irq s1 = Inr s2 \<and>
            sint (voltages s2 ! i) = trunc_div (sint (calib_coeficients s ! i)) (uint p) \<and>
            last_pulse_time s2 ! i = snd (tm2 i))"
proof -
  have pn: "p \<noteq> 0" using assms(6) by simp
  have d: "fst (tm2 i) - snd (tm1 i) = p" using assms(5) by simp
  have "fst (tm2 i) \<noteq> snd (tm1 i)" using d pn by auto
  with assms(9) have nz: "\<forall>j<5. vcf_irqs s ! j = irq \<longrightarrow> fst (tm2 j) \<noteq> snd (tm1 j)" by metis
  from second_run [OF assms(1-4) nz]
  obtain s2 where l1: "last_pulse_time s1 ! i = snd (tm1 i)"
    and e: "vcf_isr tm2 irq s1 = Inr s2" and l2: "last_pulse_time s2 ! i = snd (tm2 i)"
    and v: "voltages s2 ! i = calib_coeficients s ! i div p"
    unfolding d using assms(7) by auto
  have "sint (voltages s2 ! i) = trunc_div (sint (calib_coeficients s ! i)) (uint p)"
    unfolding v using assms(8) pn by (rule sint_udiv)
  with l1 e l2 show ?thesis by blast
qed

theorem valid_period_voltage_witness:
  "\<exists>s1 s2. vcf_isr (\<lambda>_. (5, 7)) 79 (after_init 79) = Inr s1 \<and> last_pulse_time s1 ! 0 = 7 \<and>
     vcf_isr (\<lambda>_. (1007, 1009)) 79 s1 = Inr s2 \<and>
     sint (voltages s2 ! 0) = 7692 \<and> last_pulse_time s2 ! 0 = 1009"
proof -
  have "\<exists>s1. vcf_isr (\<lambda>_. (5, 7)) 79 (after_init 79) = Inr s1"
    by (simp add: vcf_isr_def isr_channel_def after_init_def static_init_def Let_def)
  then obtain s1 where s1: "vcf_isr (\<lambda>_. (5, 7)) 79 (after_init 79) = Inr s1" ..
  have c: "(0::int) \<le> sint (calib_coeficients (after_init 79) ! 0)"
    by (simp add: after_init_def static_init_def)
  have o: "\<forall>j<5. j \<noteq> 0 \<and> vcf_irqs (after_init 79) ! j = 79 \<longrightarrow>
      fst ((\<lambda>_. (1007, 1009)) j :: u32 \<times> u32) \<noteq> snd ((\<lambda>_. (5, 7)) j :: u32 \<times> u32)"
    by simp
  have t: "fst ((\<lambda>_. (1007, 1009)) (0::nat) :: u32 \<times> u32) = snd ((\<lambda>_. (5, 7)) (0::nat) :: u32 \<times> u32) + 1000"
    by simp
  have p: "(0::u32) < 1000" "(1000::u32) < 1000000" by simp_all
  from valid_period_voltage [OF wf_after_init _ after_init_irq s1 t p c o]
  obtain s2 where "last_pulse_time s1 ! 0 = 7" and "vcf_isr (\<lambda>_. (1007, 1009)) 79 s1 = Inr s2"
    and "sint (voltages s2 ! 0) = trunc_div (sint (calib_coeficients (after_init 79) ! 0)) (uint (1000::u32))"
    and "last_pulse_time s2 ! 0 = 1009"
    by auto
  then show ?thesis using s1 by (auto simp: trunc_div_def after_init_def static_init_def)
qed

text \<open>
  Claim C5.  For a period of 0 the second edge does not keep the voltage: after an edge
  of channel 0 at timer value 5 (voltage 1538461), a second edge at the same timer value
  reaches the division with a zero divisor.  The part of the claim about periods of
  1000000 ticks and more is the lemma \<open>on_edge_stale_period\<close>.
\<close>

theorem repeated_timestamp_zero_period:
  "\<not> isl (on_edge 0 5 (after_init 79)) \<and>
   sint (voltages (projr (on_edge 0 5 (after_init 79))) ! 0) = 1538461 \<and>
   on_edge 0 (5 + 0) (projr (on_edge 0 5 (after_init 79))) = Inl DivisionByZero"
  by (simp add: on_edge_def vcf_isr_def isr_channel_def after_init_def static_init_def Let_def)

text \<open>
  Claim C6.  For a channel \<open>i\<close> of the interrupt number \<open>irq\<close>, any timestamp
  \<open>snd (tm1 i)\<close> stored by a handled run and any timer value \<open>fst (tm2 i)\<close> read by the
  next run, no channel of that interrupt number having a period of 0: the next run is
  handled, and the period it divides by is the difference of the two as 32-bit words,
  whose value is the difference of their values modulo \<open>2 ^ 32\<close>, a number that is not
  negative.  A period below 1000000 gives the voltage, a longer one keeps it.  When no
  other channel has the interrupt number, \<^verbatim>\<open>time_diff\<close> holds that period after the
  run.  For the timestamp 0xFFFFFFF0 and the timer value 0x00000010 the period is 0x20,
  32 ticks, and the voltage is the coefficient divided by 32.
\<close>

theorem wraparound_period:
  assumes "wf_state s" and "i < 5" and "vcf_irqs s ! i = irq"
    and "vcf_isr tm1 irq s = Inr s1"
    and "\<forall>j<5. vcf_irqs s ! j = irq \<longrightarrow> fst (tm2 j) \<noteq> snd (tm1 j)"
  shows "\<exists>s2. vcf_isr tm2 irq s1 = Inr s2 \<and>
           voltages s2 ! i =
             (if fst (tm2 i) - snd (tm1 i) < 1000000
              then calib_coeficients s ! i div (fst (tm2 i) - snd (tm1 i))
              else voltages s1 ! i) \<and>
           uint (fst (tm2 i) - snd (tm1 i)) = (uint (fst (tm2 i)) - uint (snd (tm1 i))) mod 2 ^ 32 \<and>
           ((\<forall>j<5. j \<noteq> i \<longrightarrow> vcf_irqs s ! j \<noteq> irq) \<longrightarrow>
              time_diff s2 = fst (tm2 i) - snd (tm1 i)) \<and>
           (snd (tm1 i) = 0xFFFFFFF0 \<and> fst (tm2 i) = 0x00000010 \<longrightarrow>
              uint (fst (tm2 i) - snd (tm1 i)) = 0x20 \<and>
              voltages s2 ! i = calib_coeficients s ! i div 0x20)"
proof -
  from second_run [OF assms]
  obtain s2 where l1: "last_pulse_time s1 ! i = snd (tm1 i)"
    and e: "vcf_isr tm2 irq s1 = Inr s2"
    and v: "voltages s2 ! i =
             (if fst (tm2 i) - snd (tm1 i) < 1000000
              then calib_coeficients s ! i div (fst (tm2 i) - snd (tm1 i))
              else voltages s1 ! i)"
    by blast
  note k = vcf_isr_keeps(1) [OF assms(4)]
  have u: "uint (fst (tm2 i) - snd (tm1 i)) = (uint (fst (tm2 i)) - uint (snd (tm1 i))) mod 2 ^ 32"
    by (simp add: uint_word_ariths)
  have t: "(\<forall>j<5. j \<noteq> i \<longrightarrow> vcf_irqs s ! j \<noteq> irq) \<longrightarrow> time_diff s2 = fst (tm2 i) - snd (tm1 i)"
  proof
    assume "\<forall>j<5. j \<noteq> i \<longrightarrow> vcf_irqs s ! j \<noteq> irq"
    then have o: "\<forall>j<5. j \<noteq> i \<longrightarrow> vcf_irqs s1 ! j \<noteq> irq" using k by simp
    have i1: "vcf_irqs s1 ! i = irq" using k assms(3) by simp
    from second_run_time_diff [OF assms(2) i1 o e] l1
    show "time_diff s2 = fst (tm2 i) - snd (tm1 i)" by simp
  qed
  have w: "snd (tm1 i) = 0xFFFFFFF0 \<and> fst (tm2 i) = 0x00000010 \<longrightarrow>
              uint (fst (tm2 i) - snd (tm1 i)) = 0x20 \<and>
              voltages s2 ! i = calib_coeficients s ! i div 0x20"
  proof
    assume h: "snd (tm1 i) = 0xFFFFFFF0 \<and> fst (tm2 i) = 0x00000010"
    have d: "fst (tm2 i) - snd (tm1 i) = 0x20" using h by simp
    show "uint (fst (tm2 i) - snd (tm1 i)) = 0x20 \<and>
              voltages s2 ! i = calib_coeficients s ! i div 0x20"
      using v unfolding d by simp
  qed
  from e v u t w show ?thesis by blast
qed

theorem wraparound_period_witness:
  "\<exists>s1 s2. vcf_isr (\<lambda>_. (0xFFFFFFEE, 0xFFFFFFF0)) 79 (after_init 79) = Inr s1 \<and>
     vcf_isr (\<lambda>_. (0x00000010, 0x00000013)) 79 s1 = Inr s2 \<and>
     time_diff s2 = 0x20 \<and> sint (voltages s2 ! 0) = 240384"
proof -
  have "\<exists>s1. vcf_isr (\<lambda>_. (0xFFFFFFEE, 0xFFFFFFF0)) 79 (after_init 79) = Inr s1"
    by (simp add: vcf_isr_def isr_channel_def after_init_def static_init_def Let_def)
  then obtain s1 where s1: "vcf_isr (\<lambda>_. (0xFFFFFFEE, 0xFFFFFFF0)) 79 (after_init 79) = Inr s1" ..
  have nz: "\<forall>j<5. vcf_irqs (after_init 79) ! j = 79 \<longrightarrow>
      fst ((\<lambda>_. (0x00000010, 0x00000013)) j :: u32 \<times> u32) \<noteq>
      snd ((\<lambda>_. (0xFFFFFFEE, 0xFFFFFFF0)) j :: u32 \<times> u32)"
    by simp
  have o: "\<forall>j<5. j \<noteq> 0 \<longrightarrow> vcf_irqs (after_init 79) ! j \<noteq> 79"
    by (rule after_init_others) simp
  from wraparound_period [OF wf_after_init _ after_init_irq s1 nz] o
  obtain s2 where "vcf_isr (\<lambda>_. (0x00000010, 0x00000013)) 79 s1 = Inr s2"
    and "time_diff s2 = 0x00000010 - 0xFFFFFFF0"
    and "voltages s2 ! 0 = calib_coeficients (after_init 79) ! 0 div 0x20"
    by auto
  then show ?thesis using s1 by (auto simp: after_init_def static_init_def)
qed

text \<open>
  Claim C10.  For a channel \<open>i\<close> with an interrupt number of its own and another
  channel \<open>j\<close>: an edge of channel \<open>i\<close> that is handled leaves \<^verbatim>\<open>last_pulse_time[j]\<close>
  and \<^verbatim>\<open>voltages[j]\<close> as they were, and no run of the handler (for any interrupt number
  and timer values), no read and no write changes \<^verbatim>\<open>calib_coeficients\<close>.
\<close>

theorem handler_frame:
  assumes "i < 5" and "own_irq s i" and "j < 5" and "j \<noteq> i"
    and "on_edge i t s = Inr s'"
  shows "last_pulse_time s' ! j = last_pulse_time s ! j \<and>
         voltages s' ! j = voltages s ! j \<and>
         calib_coeficients s' = calib_coeficients s \<and>
         (\<forall>tm irq s''. vcf_isr tm irq s = Inr s'' \<longrightarrow> calib_coeficients s'' = calib_coeficients s) \<and>
         calib_coeficients (snd (isov_misc_read dm uspace s count offset)) = calib_coeficients s \<and>
         calib_coeficients (snd (isov_misc_write s buf count offset)) = calib_coeficients s"
proof -
  from assms(5) have c: "isr_channel i t t s = Inr s'"
    by (simp add: on_edge_single [OF assms(1,2)])
  have a: "last_pulse_time s' ! j = last_pulse_time s ! j \<and> voltages s' ! j = voltages s ! j"
    using c assms(4) by (rule isr_channel_other)
  have b: "calib_coeficients s' = calib_coeficients s" using isr_channel_keeps [OF c] by simp
  have d: "\<forall>tm irq s''. vcf_isr tm irq s = Inr s'' \<longrightarrow> calib_coeficients s'' = calib_coeficients s"
  proof (intro allI impI)
    fix tm irq s''
    assume "vcf_isr tm irq s = Inr s''"
    then have "isr_loop tm irq [0, 1, 2, 3, 4] s = Inr s''" by (simp only: vcf_isr_def)
    from isr_loop_keeps [OF this] show "calib_coeficients s'' = calib_coeficients s" by simp
  qed
  have r: "calib_coeficients (snd (isov_misc_read dm uspace s count offset)) = calib_coeficients s"
    using isov_misc_read_frame [of dm uspace s count offset] by auto
  have w: "calib_coeficients (snd (isov_misc_write s buf count offset)) = calib_coeficients s"
    by (simp add: isov_misc_write_def)
  show ?thesis using a b d r w by blast
qed

theorem handler_frame_witness:
  "\<exists>s'. on_edge 0 5 (after_init 79) = Inr s' \<and> last_pulse_time s' ! 1 = 0 \<and>
     voltages s' ! 1 = 0 \<and> calib_coeficients s' = calib_coeficients static_init"
proof -
  have "\<exists>s'. on_edge 0 5 (after_init 79) = Inr s'"
    by (simp add: on_edge_def vcf_isr_def isr_channel_def after_init_def static_init_def Let_def)
  then obtain s' where e: "on_edge 0 5 (after_init 79) = Inr s'" ..
  have o: "own_irq (after_init 79) 0" by (simp add: own_irq_after_init)
  from handler_frame [OF _ o _ _ e, of 1]
  have "last_pulse_time s' ! 1 = last_pulse_time (after_init 79) ! 1"
    and "voltages s' ! 1 = voltages (after_init 79) ! 1"
    and "calib_coeficients s' = calib_coeficients (after_init 79)"
    by simp_all
  then show ?thesis using e by (simp add: after_init_def static_init_def)
qed

section \<open>Claims about the character device\<close>

text \<open>
  Claim C7.  A read at offset 0 leaves at the start of \<^verbatim>\<open>txt_buffer\<close> the text
  \<^verbatim>\<open>V1=<int> V2=<int> V3=<int> V4=<int> V5=<int> \n\<close> followed by a null byte, and the
  rendered length counts that byte; the bytes behind it are those the buffer held
  before.  Each \<^verbatim>\<open><int>\<close> is a signed decimal integer of no fixed width (a minus sign
  for a negative number only, no padding, no leading zero) that denotes the voltage of
  its channel read as a signed number.  With the calibration coefficients of the source,
  after a run of the handler that measures a period of 1000 ticks on channel 0 the
  voltage is 7692 and the text begins with \<^verbatim>\<open>V1=7692\<close>.
\<close>

theorem snapshot_text:
  "(\<exists>f0 f1 f2 f3 f4 text.
      text = ''V1='' @ f0 @ '' V2='' @ f1 @ '' V3='' @ f2 @ '' V4='' @ f3 @ '' V5='' @ f4 @
               [CHR '' '', CHR 0x0A] \<and>
      txt_buffer (snd (isov_misc_read dm uspace s count 0)) =
        text @ [CHR 0x00] @ drop (length text + 1) (txt_buffer s) \<and>
      snd (render dm s) = int (length text) + 1 \<and>
      plain_decimal f0 \<and> decimal_value f0 = sint (voltages s ! 0) \<and>
      plain_decimal f1 \<and> decimal_value f1 = sint (voltages s ! 1) \<and>
      plain_decimal f2 \<and> decimal_value f2 = sint (voltages s ! 2) \<and>
      plain_decimal f3 \<and> decimal_value f3 = sint (voltages s ! 3) \<and>
      plain_decimal f4 \<and> decimal_value f4 = sint (voltages s ! 4)) \<and>
   (wf_state s \<and> calib_coeficients s = calib_coeficients static_init \<and>
    vcf_irqs s ! 0 = irq \<and> vcf_isr tm1 irq s = Inr s1 \<and>
    fst (tm2 0) = snd (tm1 0) + 1000 \<and>
    (\<forall>j<5. j \<noteq> 0 \<and> vcf_irqs s ! j = irq \<longrightarrow> fst (tm2 j) \<noteq> snd (tm1 j)) \<longrightarrow>
      (\<exists>s2. vcf_isr tm2 irq s1 = Inr s2 \<and> sint (voltages s2 ! 0) = 7692 \<and>
         take 7 (txt_buffer (snd (isov_misc_read dm uspace s2 count 0))) = ''V1=7692''))"
proof -
  let ?f = "\<lambda>k. dec_int (sint (voltages s ! k))"
  let ?text = "format_voltages (voltages s)"
  have t: "?text = ''V1='' @ ?f 0 @ '' V2='' @ ?f 1 @ '' V3='' @ ?f 2 @ '' V4='' @ ?f 3 @
      '' V5='' @ ?f 4 @ [CHR '' '', CHR 0x0A]"
    by (simp add: format_voltages_def)
  have b: "txt_buffer (snd (isov_misc_read dm uspace s count 0)) =
        ?text @ [CHR 0x00] @ drop (length ?text + 1) (txt_buffer s)"
    by (simp add: read_offset0_state snapshot_def rendered_length_def)
  have r: "snd (render dm s) = int (length ?text) + 1"
    by (simp add: render_eq rendered_length_def snapshot_def)
  have a: "\<exists>f0 f1 f2 f3 f4 text.
      text = ''V1='' @ f0 @ '' V2='' @ f1 @ '' V3='' @ f2 @ '' V4='' @ f3 @ '' V5='' @ f4 @
               [CHR '' '', CHR 0x0A] \<and>
      txt_buffer (snd (isov_misc_read dm uspace s count 0)) =
        text @ [CHR 0x00] @ drop (length text + 1) (txt_buffer s) \<and>
      snd (render dm s) = int (length text) + 1 \<and>
      plain_decimal f0 \<and> decimal_value f0 = sint (voltages s ! 0) \<and>
      plain_decimal f1 \<and> decimal_value f1 = sint (voltages s ! 1) \<and>
      plain_decimal f2 \<and> decimal_value f2 = sint (voltages s ! 2) \<and>
      plain_decimal f3 \<and> decimal_value f3 = sint (voltages s ! 3) \<and>
      plain_decimal f4 \<and> decimal_value f4 = sint (voltages s ! 4)"
    apply (rule exI [of _ "?f 0"], rule exI [of _ "?f 1"], rule exI [of _ "?f 2"])
    apply (rule exI [of _ "?f 3"], rule exI [of _ "?f 4"], rule exI [of _ ?text])
    using t b r by (simp only: plain_decimal_dec_int decimal_value_dec_int simp_thms)
  have e: "wf_state s \<and> calib_coeficients s = calib_coeficients static_init \<and>
    vcf_irqs s ! 0 = irq \<and> vcf_isr tm1 irq s = Inr s1 \<and>
    fst (tm2 0) = snd (tm1 0) + 1000 \<and>
    (\<forall>j<5. j \<noteq> 0 \<and> vcf_irqs s ! j = irq \<longrightarrow> fst (tm2 j) \<noteq> snd (tm1 j)) \<longrightarrow>
      (\<exists>s2. vcf_isr tm2 irq s1 = Inr s2 \<and> sint (voltages s2 ! 0) = 7692 \<and>
         take 7 (txt_buffer (snd (isov_misc_read dm uspace s2 count 0))) = ''V1=7692'')"
  proof
    assume h: "wf_state s \<and> calib_coeficients s = calib_coeficients static_init \<and>
      vcf_irqs s ! 0 = irq \<and> vcf_isr tm1 irq s = Inr s1 \<and>
      fst (tm2 0) = snd (tm1 0) + 1000 \<and>
      (\<forall>j<5. j \<noteq> 0 \<and> vcf_irqs s ! j = irq \<longrightarrow> fst (tm2 j) \<noteq> snd (tm1 j))"
    then have wf: "wf_state s" and cal: "calib_coeficients s = calib_coeficients static_init"
      and q: "vcf_irqs s ! 0 = irq" and e1: "vcf_isr tm1 irq s = Inr s1"
      and p: "fst (tm2 0) = snd (tm1 0) + 1000"
      and o: "\<forall>j<5. j \<noteq> 0 \<and> vcf_irqs s ! j = irq \<longrightarrow> fst (tm2 j) \<noteq> snd (tm1 j)"
      by simp_all
    have d: "fst (tm2 0) - snd (tm1 0) = 1000" using p by simp
    have "fst (tm2 0) \<noteq> snd (tm1 0)" using d by auto
    with o have nz: "\<forall>j<5. vcf_irqs s ! j = irq \<longrightarrow> fst (tm2 j) \<noteq> snd (tm1 j)" by metis
    from second_run [OF wf _ q e1 nz]
    obtain s2 where e2: "vcf_isr tm2 irq s1 = Inr s2"
      and v: "voltages s2 ! 0 = calib_coeficients s ! 0 div 1000"
      unfolding d by auto
    have v': "voltages s2 ! 0 = 7692" unfolding v cal by (simp add: static_init_def)
    have "take 7 (txt_buffer (snd (isov_misc_read dm uspace s2 count 0))) = ''V1=7692''"
      by (simp add: read_offset0_state snapshot_def format_voltages_def v' dec_int_7692)
    moreover have "sint (voltages s2 ! 0) = 7692" by (simp add: v')
    ultimately show "\<exists>s2. vcf_isr tm2 irq s1 = Inr s2 \<and> sint (voltages s2 ! 0) = 7692 \<and>
         take 7 (txt_buffer (snd (isov_misc_read dm uspace s2 count 0))) = ''V1=7692''"
      using e2 by blast
  qed
  from a e show ?thesis by (rule conjI)
qed

theorem snapshot_text_witness:
  "\<exists>s1 s2. vcf_isr (\<lambda>_. (5, 7)) 79 (after_init 79) = Inr s1 \<and>
     vcf_isr (\<lambda>_. (1007, 1009)) 79 s1 = Inr s2 \<and>
     sint (voltages s2 ! 0) = 7692 \<and>
     take 7 (txt_buffer (snd (isov_misc_read ILP32 4096 s2 4096 0))) = ''V1=7692''"
proof -
  have "\<exists>s1. vcf_isr (\<lambda>_. (5, 7)) 79 (after_init 79) = Inr s1"
    by (simp add: vcf_isr_def isr_channel_def after_init_def static_init_def Let_def)
  then obtain s1 where s1: "vcf_isr (\<lambda>_. (5, 7)) 79 (after_init 79) = Inr s1" ..
  have h: "wf_state (after_init 79) \<and>
      calib_coeficients (after_init 79) = calib_coeficients static_init \<and>
      vcf_irqs (after_init 79) ! 0 = 79 \<and> vcf_isr (\<lambda>_. (5, 7)) 79 (after_init 79) = Inr s1 \<and>
      fst ((\<lambda>_. (1007, 1009)) (0::nat) :: u32 \<times> u32) = snd ((\<lambda>_. (5, 7)) (0::nat) :: u32 \<times> u32) + 1000 \<and>
      (\<forall>j<5. j \<noteq> 0 \<and> vcf_irqs (after_init 79) ! j = 79 \<longrightarrow>
         fst ((\<lambda>_. (1007, 1009)) j :: u32 \<times> u32) \<noteq> snd ((\<lambda>_. (5, 7)) j :: u32 \<times> u32))"
    using s1 by (simp add: wf_after_init after_init_irq) (simp add: after_init_def)
  from snapshot_text [of ILP32 4096 "after_init 79" 4096 79 "\<lambda>_. (5, 7)" s1 "\<lambda>_. (1007, 1009)"] h
  obtain s2 where "vcf_isr (\<lambda>_. (1007, 1009)) 79 s1 = Inr s2" and "sint (voltages s2 ! 0) = 7692"
    and "take 7 (txt_buffer (snd (isov_misc_read ILP32 4096 s2 4096 0))) = ''V1=7692''"
    by blast
  with s1 show ?thesis by blast
qed

text \<open>
  Claim C3.  Reading the snapshot in two calls does not give what one call gives.
  The read function never writes \<^verbatim>\<open>*offset\<close>, so the second call finds the file position
  at 0 again: after a read of 5 bytes, which returns \<^verbatim>\<open>V1=0 \<close>, the read of the remaining
  22 bytes returns the first 22 bytes of the snapshot, not those from position 5.  The
  lemma \<open>read_lp64_inside_snapshot\<close> shows what the function does when it is given
  offset 5: with a 64-bit \<^verbatim>\<open>size_t\<close> it returns all 100 bytes asked for where 22
  remain, with a 32-bit one it returns 22.
\<close>

theorem second_read_repeats:
  "read_data (fst (file_read ILP32 4096 (after_init 79, 0) 5)) = ''V1=0 '' \<and>
   read_data (fst (file_read ILP32 4096 (snd (file_read ILP32 4096 (after_init 79, 0) 5)) 22)) =
     ''V1=0 V2=0 V3=0 V4=0 V5'' \<and>
   read_data (fst (file_read ILP32 4096 (after_init 79, 0) 27)) =
     ''V1=0 V2=0 V3=0 V4=0 V5=0 '' @ [CHR 0x0A, CHR 0x00] \<and>
   read_data (fst (file_read LP64 4096 (after_init 79, 0) 5)) = ''V1=0 '' \<and>
   read_data (fst (file_read LP64 4096 (snd (file_read LP64 4096 (after_init 79, 0) 5)) 22)) =
     ''V1=0 V2=0 V3=0 V4=0 V5'' \<and>
   read_data (fst (file_read LP64 4096 (after_init 79, 0) 27)) =
     ''V1=0 V2=0 V3=0 V4=0 V5=0 '' @ [CHR 0x0A, CHR 0x00]"
  by (simp add: file_read_start(1) file_read_twice rendered_length_after_init snapshot_after_init)

text \<open>
  Claim C4.  There is no end of a session.  A read that takes the whole snapshot of 27
  bytes leaves the file position at 0, and the next read does not return 0 bytes: it
  returns the 27 bytes of a fresh snapshot.  The lemma \<open>read_nonzero\<close> shows that no
  call returns 0, and the lemma \<open>read_at_rendered_length\<close> what the function does when
  it is given the offset 27: with a 32-bit \<^verbatim>\<open>size_t\<close> it fails with \<open>ENODATA\<close>, with a
  64-bit one it returns bytes from behind the snapshot.
\<close>

theorem drained_read_repeats:
  "read_data (fst (file_read ILP32 4096 (after_init 79, 0) 4096)) =
     ''V1=0 V2=0 V3=0 V4=0 V5=0 '' @ [CHR 0x0A, CHR 0x00] \<and>
   snd (snd (file_read ILP32 4096 (after_init 79, 0) 4096)) = 0 \<and>
   read_data (fst (file_read ILP32 4096 (snd (file_read ILP32 4096 (after_init 79, 0) 4096)) 4096)) =
     ''V1=0 V2=0 V3=0 V4=0 V5=0 '' @ [CHR 0x0A, CHR 0x00] \<and>
   read_data (fst (file_read LP64 4096 (after_init 79, 0) 4096)) =
     ''V1=0 V2=0 V3=0 V4=0 V5=0 '' @ [CHR 0x0A, CHR 0x00] \<and>
   snd (snd (file_read LP64 4096 (after_init 79, 0) 4096)) = 0 \<and>
   read_data (fst (file_read LP64 4096 (snd (file_read LP64 4096 (after_init 79, 0) 4096)) 4096)) =
     ''V1=0 V2=0 V3=0 V4=0 V5=0 '' @ [CHR 0x0A, CHR 0x00]"
  by (simp add: file_read_start(1) file_read_twice file_read_position
      rendered_length_after_init snapshot_after_init)

text \<open>
  Claim C8.  \<^verbatim>\<open>isov_misc_write\<close> fails with \<open>EINVAL\<close> for every buffer, count and
  offset, and leaves the state as it was.
\<close>

theorem write_rejected: "isov_misc_write s buf count offset = (Inl EINVAL, s)"
  by (simp add: isov_misc_write_def)

text \<open>
  Claim C9.  \<open>ENODATA\<close> is returned although rendering produced 27 bytes: a read of 0
  bytes at the start of the file fails with it.  The test before the error is on the
  length to copy, and rendering never yields a length of 0 (lemma \<open>rendered_length_ge\<close>).
  The lemmas \<open>enodata_ilp32\<close> and \<open>enodata_lp64\<close> say when the error is returned.
\<close>

theorem zero_count_read_enodata:
  "snd (render ILP32 (after_init 79)) = 27 \<and>
   fst (file_read ILP32 64 (after_init 79, 0) 0) = Inl ENODATA \<and>
   snd (render LP64 (after_init 79)) = 27 \<and>
   fst (file_read LP64 64 (after_init 79, 0) 0) = Inl ENODATA"
  by (simp add: file_read_eq render_eq rendered_length_after_init
      enodata_ilp32 enodata_lp64)

end
